theory Spec2Isabelle
  imports Main "HOL-Library.Char_ord" "HOL-Library.List_Lexorder" "HOL-Library.Multiset"
begin

section \<open>Errors raised by the notebooks\<close>

text \<open>
  The notebooks raise Python exceptions. \<open>AssertionError found expected\<close> is the failed
  \<^verbatim>\<open>assert image_count == nimages[dataset]\<close> of \<^verbatim>\<open>get_paths\<close> (the specification calls it
  CountMismatch), \<open>KeyError name\<close> is the failed dictionary lookup
  \<^verbatim>\<open>label_to_index[...]\<close> of \<^verbatim>\<open>get_labels\<close> (UnknownLabel in the specification). The other
  three come from the TensorFlow operations the notebooks call.
\<close>

datatype error =
    AssertionError nat nat
  | KeyError string
  | NotFoundError string
  | DecodeError string
  | InvalidArgumentError

definition bind_r :: "error + 'a \<Rightarrow> ('a \<Rightarrow> error + 'b) \<Rightarrow> error + 'b" where
  "bind_r m f = (case m of Inl e \<Rightarrow> Inl e | Inr x \<Rightarrow> f x)"

section \<open>The directory tree under \<^verbatim>\<open>datapath\<close>\<close>

text \<open>
  A directory is the list of its entries in the order the operating system lists them;
  \<open>fs\<close> below is always the listing of the directory \<^verbatim>\<open>datapath\<close>.
\<close>

datatype entry = File | Dir "(string \<times> entry) list"

type_synonym listing = "(string \<times> entry) list"

datatype split = Train | Validation | Test

fun split_name :: "split \<Rightarrow> string" where
  "split_name Train = ''train''"
| "split_name Validation = ''validation''"
| "split_name Test = ''test''"

fun is_dir :: "entry \<Rightarrow> bool" where
  "is_dir File = False"
| "is_dir (Dir cs) = True"

fun iterdir :: "entry option \<Rightarrow> listing" where
  "iterdir (Some (Dir cs)) = cs"
| "iterdir (Some File) = []"
| "iterdir None = []"

text \<open>
  \<^verbatim>\<open>data_root.glob('*/*')\<close>: every entry \<open>y\<close> of every directory \<open>x\<close> of \<open>data_root\<close>, as the
  pair of the two names. A pattern component \<^verbatim>\<open>*\<close> of pathlib matches every name; a
  missing \<open>data_root\<close> matches nothing.
\<close>

definition glob_star_star :: "entry option \<Rightarrow> (string \<times> string) list" where
  "glob_star_star root =
     concat (map (\<lambda>(x, e). map (\<lambda>(y, e'). (x, y)) (iterdir (Some e))) (iterdir root))"

text \<open>
  \<^verbatim>\<open>str(path)\<close> of a path \<^verbatim>\<open>data_root / x / y\<close>, for a \<open>data_root\<close> that pathlib prints as it
  is written (no doubled or trailing \<^verbatim>\<open>/\<close>, no \<^verbatim>\<open>.\<close> component), as those of the notebooks.
\<close>

definition path_str :: "string \<Rightarrow> string \<times> string \<Rightarrow> string" where
  "path_str data_root p = data_root @ ''/'' @ fst p @ ''/'' @ snd p"

text \<open>
  \<^verbatim>\<open>
  def get_paths(dataset):
      data_root = pathlib.Path(datapath+dataset)
      image_paths = list(data_root.glob('*/*'))
      image_paths = [str(path) for path in image_paths]
      image_count = len(image_paths)
      assert image_count == nimages[dataset], "Found {} images, expected {}".format(...)
      return image_paths
  \<close>
  \<open>datapath\<close> and \<open>nimages\<close> are the notebook's globals.
\<close>

definition glob_paths :: "string \<Rightarrow> listing \<Rightarrow> split \<Rightarrow> string list" where
  "glob_paths datapath fs dataset =
     map (path_str (datapath @ split_name dataset))
       (glob_star_star (map_of fs (split_name dataset)))"

definition get_paths :: "string \<Rightarrow> (split \<Rightarrow> nat) \<Rightarrow> listing \<Rightarrow> split \<Rightarrow> error + string list" where
  "get_paths datapath nimages fs dataset =
     (let image_paths = glob_paths datapath fs dataset;
          image_count = length image_paths
      in if image_count = nimages dataset then Inr image_paths
         else Inl (AssertionError image_count (nimages dataset)))"

text \<open>The globals of the dogs-vs-cats notebooks and of the traffic-sign notebook.\<close>

definition dvc_datapath :: string where
  "dvc_datapath = ''/media/data/dogs-vs-cats/train-2000/''"

fun dvc_nimages :: "split \<Rightarrow> nat" where
  "dvc_nimages Train = 2000"
| "dvc_nimages Validation = 1000"
| "dvc_nimages Test = 22000"

definition gtsrb_datapath :: string where
  "gtsrb_datapath = ''/media/data/gtsrb/train-5535/''"

fun gtsrb_nimages :: "split \<Rightarrow> nat" where
  "gtsrb_nimages Train = 5535"
| "gtsrb_nimages Validation = 999"
| "gtsrb_nimages Test = 12630"

section \<open>Labels\<close>

text \<open>
  \<^verbatim>\<open>pathlib.Path(path).parent.name\<close>: the path string is split at \<^verbatim>\<open>/\<close>, empty and \<^verbatim>\<open>.\<close>
  components are dropped, and the name of the parent is the last but one component
  (the empty string when there is none).
\<close>

fun split_slash :: "string \<Rightarrow> string list" where
  "split_slash [] = [[]]"
| "split_slash (c # cs) =
     (if c = CHR ''/'' then [] # split_slash cs
      else (case split_slash cs of [] \<Rightarrow> [[c]] | w # ws \<Rightarrow> (c # w) # ws))"

definition path_parts :: "string \<Rightarrow> string list" where
  "path_parts s = filter (\<lambda>c. c \<noteq> [] \<and> c \<noteq> ''.'') (split_slash s)"

definition parent_name :: "string \<Rightarrow> string" where
  "parent_name s =
     (let ps = path_parts s in if length ps < 2 then [] else last (butlast ps))"

text \<open>
  \<^verbatim>\<open>
  label_names = sorted(item.name for item in pathlib.Path(datapath+'train').glob('*/')
                       if item.is_dir())
  label_to_index = dict((name, index) for index,name in enumerate(label_names))
  \<close>
  Python compares strings by code point, which on UTF-8 bytes is the lexicographic order
  of the bytes. A later pair of \<^verbatim>\<open>dict(...)\<close> overwrites an earlier one with the same key.
\<close>

definition label_names :: "listing \<Rightarrow> string list" where
  "label_names fs =
     sort (map fst (filter (\<lambda>item. is_dir (snd item)) (iterdir (map_of fs ''train''))))"

definition label_to_index :: "string list \<Rightarrow> (string \<rightharpoonup> nat)" where
  "label_to_index names =
     fold (\<lambda>(index, name) d. d(name \<mapsto> index)) (enumerate 0 names) Map.empty"

text \<open>
  \<^verbatim>\<open>
  def get_labels(dataset):
      return [label_to_index[pathlib.Path(path).parent.name]
              for path in image_paths[dataset]]
  \<close>
\<close>

fun get_labels :: "(string \<rightharpoonup> nat) \<Rightarrow> string list \<Rightarrow> error + nat list" where
  "get_labels d [] = Inr []"
| "get_labels d (path # paths) =
     (case d (parent_name path) of
        None \<Rightarrow> Inl (KeyError (parent_name path))
      | Some i \<Rightarrow> bind_r (get_labels d paths) (\<lambda>ls. Inr (i # ls)))"


text \<open>
  Cells 5, 6 and the \<^verbatim>\<open>from_tensor_slices\<close> calls: the paths of the three splits are
  collected first, then the label space is read from the training directory, then the
  labels of the three splits are looked up. \<^verbatim>\<open>from_tensor_slices\<close> pairs the i-th path
  with the i-th label and rejects lists of different lengths.
\<close>

definition from_tensor_slices :: "'a list \<Rightarrow> 'b list \<Rightarrow> error + ('a \<times> 'b) list" where
  "from_tensor_slices xs ys =
     (if length xs = length ys then Inr (zip xs ys) else Inl InvalidArgumentError)"

type_synonym sample = "string \<times> nat"

definition index_datasets ::
  "string \<Rightarrow> (split \<Rightarrow> nat) \<Rightarrow> listing \<Rightarrow> error + (sample list \<times> sample list \<times> sample list)" where
  "index_datasets datapath nimages fs =
     bind_r (get_paths datapath nimages fs Train) (\<lambda>paths_train.
     bind_r (get_paths datapath nimages fs Validation) (\<lambda>paths_validation.
     bind_r (get_paths datapath nimages fs Test) (\<lambda>paths_test.
     bind_r (get_labels (label_to_index (label_names fs)) paths_train) (\<lambda>labels_train.
     bind_r (get_labels (label_to_index (label_names fs)) paths_validation) (\<lambda>labels_validation.
     bind_r (get_labels (label_to_index (label_names fs)) paths_test) (\<lambda>labels_test.
     bind_r (from_tensor_slices paths_train labels_train) (\<lambda>train.
     bind_r (from_tensor_slices paths_validation labels_validation) (\<lambda>validation.
     bind_r (from_tensor_slices paths_test labels_test) (\<lambda>test.
       Inr (train, validation, test))))))))))"

section \<open>Loading an image\<close>

text \<open>
  An image is the list of its rows, a row the list of its pixels; the type of a pixel
  (the vector of its channels) is left open. \<^verbatim>\<open>tf.image.resize(image, [h, w])\<close> computes
  one pixel for each of the \<open>h * w\<close> positions of the target from the source image; how
  (bilinear interpolation in floating point) is the parameter \<open>interp\<close>. It rejects an
  image without pixels.
\<close>

type_synonym 'p image = "'p list list"

definition resize ::
  "('p image \<Rightarrow> nat \<times> nat \<Rightarrow> nat \<Rightarrow> nat \<Rightarrow> 'q) \<Rightarrow> 'p image \<Rightarrow> nat \<times> nat \<Rightarrow> error + 'q image" where
  "resize interp img target =
     (if img = [] \<or> hd img = [] then Inl InvalidArgumentError
      else Inr (map (\<lambda>i. map (\<lambda>j. interp img target i j) [0..<snd target]) [0..<fst target]))"

definition dvc_INPUT_IMAGE_SIZE :: "nat \<times> nat" where
  "dvc_INPUT_IMAGE_SIZE = (256, 256)"

definition gtsrb_INPUT_IMAGE_SIZE :: "nat \<times> nat" where
  "gtsrb_INPUT_IMAGE_SIZE = (80, 80)"

text \<open>
  \<^verbatim>\<open>
  def load_image(path, label):
      image = tf.io.read_file(path)
      image = tf.image.decode_jpeg(image, channels=3)
      return tf.image.resize(image, INPUT_IMAGE_SIZE), label
  \<close>
  \<open>read_file\<close> is the content of the files (or the error of a missing one) and
  \<open>decode_jpeg\<close> the codec; both can fail.
\<close>

definition load_image ::
  "(string \<Rightarrow> error + 'b) \<Rightarrow> ('b \<Rightarrow> error + 'p image) \<Rightarrow>
   ('p image \<Rightarrow> nat \<times> nat \<Rightarrow> nat \<Rightarrow> nat \<Rightarrow> 'q) \<Rightarrow> sample \<Rightarrow> error + ('q image \<times> nat)" where
  "load_image read_file decode_jpeg interp s =
     (case s of (path, label) \<Rightarrow>
        bind_r (read_file path) (\<lambda>contents.
        bind_r (decode_jpeg contents) (\<lambda>img.
        bind_r (resize interp img dvc_INPUT_IMAGE_SIZE) (\<lambda>resized.
          Inr (resized, label)))))"

text \<open>
  The traffic-sign notebook opens the file with PIL instead:
  \<^verbatim>\<open>
  def _load_image(path, label):
      image = Image.open(path.numpy())
      return np.array(image), label

  def load_image(path, label):
      image, label = tf.py_function(_load_image, (path, label), (tf.float32, tf.int32))
      image.set_shape([None, None, None])
      label.set_shape([])
      return tf.image.resize(image, INPUT_IMAGE_SIZE), label
  \<close>
  \<^verbatim>\<open>np.array(image)\<close> of a PIL image has two axes (rows and columns) for a single-channel
  file and three (rows, columns and channels) otherwise; \<open>image_open\<close> stands for
  \<^verbatim>\<open>Image.open\<close> followed by \<^verbatim>\<open>np.array\<close>. The tensor is declared to have three axes, and
  \<^verbatim>\<open>tf.image.resize\<close> then rejects an array that has only two when the dataset is
  iterated. A pixel of an array of three axes is the list of its channels.
\<close>

datatype 'v ndarray = Array2 "'v list list" | Array3 "'v list list list"

fun set_shape3 :: "'v ndarray \<Rightarrow> error + 'v list image" where
  "set_shape3 (Array3 img) = Inr img"
| "set_shape3 (Array2 grey) = Inl InvalidArgumentError"

definition gtsrb_load_image ::
  "(string \<Rightarrow> error + 'v ndarray) \<Rightarrow>
   ('v list image \<Rightarrow> nat \<times> nat \<Rightarrow> nat \<Rightarrow> nat \<Rightarrow> 'q) \<Rightarrow> sample \<Rightarrow> error + ('q image \<times> nat)" where
  "gtsrb_load_image image_open interp s =
     (case s of (path, label) \<Rightarrow>
        bind_r (image_open path) (\<lambda>array.
        bind_r (set_shape3 array) (\<lambda>img.
        bind_r (resize interp img gtsrb_INPUT_IMAGE_SIZE) (\<lambda>resized.
          Inr (resized, label)))))"

section \<open>Dataset operations\<close>

text \<open>
  A dataset is modelled by the finite list of the elements one iteration over it yields,
  or by the error the iteration ends with. \<^verbatim>\<open>Dataset.map\<close> applies the function to every
  element, and an element that fails fails the iteration; which batches were handed out
  before the failure is not recorded.
\<close>

fun ds_map :: "('a \<Rightarrow> error + 'b) \<Rightarrow> 'a list \<Rightarrow> error + 'b list" where
  "ds_map f [] = Inr []"
| "ds_map f (x # xs) = bind_r (f x) (\<lambda>y. bind_r (ds_map f xs) (\<lambda>ys. Inr (y # ys)))"

text \<open>
  \<^verbatim>\<open>Dataset.shuffle(buffer_size)\<close>: the buffer is filled from the input up to
  \<open>buffer_size\<close> elements; a random element of the buffer is handed out, the first element
  of the buffer takes its place, and the buffer is refilled at its end. \<open>rnd k\<close> is the
  k-th random number of the iteration; every iteration (epoch) draws its own.
\<close>

function shuffle_go :: "(nat \<Rightarrow> nat) \<Rightarrow> nat \<Rightarrow> nat \<Rightarrow> 'a list \<Rightarrow> 'a list \<Rightarrow> 'a list" where
  "shuffle_go rnd k buffer_size buf input =
     (if buf @ take (buffer_size - length buf) input = [] then []
      else (buf @ take (buffer_size - length buf) input)
              ! (rnd k mod length (buf @ take (buffer_size - length buf) input))
           # shuffle_go rnd (Suc k) buffer_size
               (tl ((buf @ take (buffer_size - length buf) input)
                  [rnd k mod length (buf @ take (buffer_size - length buf) input)
                     := hd (buf @ take (buffer_size - length buf) input)]))
               (drop (buffer_size - length buf) input))"
  by pat_completeness auto
termination
  by (relation "measure (\<lambda>(rnd, k, buffer_size, buf, input). length buf + length input)")
     (auto simp: min_def neq_Nil_conv)

declare shuffle_go.simps [simp del]

definition shuffle :: "nat \<Rightarrow> (nat \<Rightarrow> nat) \<Rightarrow> 'a list \<Rightarrow> error + 'a list" where
  "shuffle buffer_size rnd xs =
     (if buffer_size = 0 then Inl InvalidArgumentError
      else Inr (shuffle_go rnd 0 buffer_size [] xs))"

text \<open>
  \<^verbatim>\<open>Dataset.batch(batch_size, drop_remainder)\<close>: consecutive groups of \<open>batch_size\<close>
  elements; a last group with fewer elements is handed out unless \<open>drop_remainder\<close>.
\<close>

function batch_chunks :: "nat \<Rightarrow> bool \<Rightarrow> 'a list \<Rightarrow> 'a list list" where
  "batch_chunks batch_size drop_remainder xs =
     (if batch_size = 0 then []
      else if length xs < batch_size then (if xs = [] \<or> drop_remainder then [] else [xs])
      else take batch_size xs # batch_chunks batch_size drop_remainder (drop batch_size xs))"
  by pat_completeness auto
termination
  by (relation "measure (\<lambda>(batch_size, drop_remainder, xs). length xs)") auto

declare batch_chunks.simps [simp del]

definition batch :: "nat \<Rightarrow> bool \<Rightarrow> 'a list \<Rightarrow> error + 'a list list" where
  "batch batch_size drop_remainder xs =
     (if batch_size = 0 then Inl InvalidArgumentError
      else Inr (batch_chunks batch_size drop_remainder xs))"

definition prefetch :: "'a list \<Rightarrow> 'a list" where
  "prefetch xs = xs"


section \<open>The datasets of the notebooks\<close>

text \<open>
  The dogs-vs-cats CNN notebook:
  \<^verbatim>\<open>
  BATCH_SIZE = 32
  train_dataset = train_dataset.map(load_image, num_parallel_calls=10)
  train_dataset = train_dataset.shuffle(2000).batch(BATCH_SIZE, drop_remainder=True)
  train_dataset = train_dataset.prefetch(buffer_size=tf.data.experimental.AUTOTUNE)
  validation_dataset = validation_dataset.map(load_image, num_parallel_calls=10)
  validation_dataset = validation_dataset.batch(BATCH_SIZE, drop_remainder=True)
  test_dataset = test_dataset.map(load_image, num_parallel_calls=10)
  test_dataset = test_dataset.batch(BATCH_SIZE, drop_remainder=False)
  \<close>
\<close>

definition dvc_BATCH_SIZE :: nat where
  "dvc_BATCH_SIZE = 32"

definition dvc_shuffle_buffer :: nat where
  "dvc_shuffle_buffer = 2000"

definition dvc_train_dataset ::
  "(string \<Rightarrow> error + 'b) \<Rightarrow> ('b \<Rightarrow> error + 'p image) \<Rightarrow>
   ('p image \<Rightarrow> nat \<times> nat \<Rightarrow> nat \<Rightarrow> nat \<Rightarrow> 'q) \<Rightarrow> (nat \<Rightarrow> nat) \<Rightarrow> sample list \<Rightarrow>
   error + ('q image \<times> nat) list list" where
  "dvc_train_dataset read_file decode_jpeg interp rnd ds =
     bind_r (ds_map (load_image read_file decode_jpeg interp) ds) (\<lambda>loaded.
     bind_r (shuffle dvc_shuffle_buffer rnd loaded) (\<lambda>shuffled.
     bind_r (batch dvc_BATCH_SIZE True shuffled) (\<lambda>batches.
       Inr (prefetch batches))))"

definition dvc_validation_dataset ::
  "(string \<Rightarrow> error + 'b) \<Rightarrow> ('b \<Rightarrow> error + 'p image) \<Rightarrow>
   ('p image \<Rightarrow> nat \<times> nat \<Rightarrow> nat \<Rightarrow> nat \<Rightarrow> 'q) \<Rightarrow> sample list \<Rightarrow>
   error + ('q image \<times> nat) list list" where
  "dvc_validation_dataset read_file decode_jpeg interp ds =
     bind_r (ds_map (load_image read_file decode_jpeg interp) ds) (\<lambda>loaded.
     bind_r (batch dvc_BATCH_SIZE True loaded) (\<lambda>batches.
       Inr (prefetch batches)))"

definition dvc_test_dataset ::
  "(string \<Rightarrow> error + 'b) \<Rightarrow> ('b \<Rightarrow> error + 'p image) \<Rightarrow>
   ('p image \<Rightarrow> nat \<times> nat \<Rightarrow> nat \<Rightarrow> nat \<Rightarrow> 'q) \<Rightarrow> sample list \<Rightarrow>
   error + ('q image \<times> nat) list list" where
  "dvc_test_dataset read_file decode_jpeg interp ds =
     bind_r (ds_map (load_image read_file decode_jpeg interp) ds) (\<lambda>loaded.
     bind_r (batch dvc_BATCH_SIZE False loaded) (\<lambda>batches.
       Inr (prefetch batches)))"

text \<open>
  One run of the notebook up to the evaluation: the three splits are indexed, then
  \<^verbatim>\<open>model.fit\<close> iterates over the training and the validation dataset and
  \<^verbatim>\<open>model.evaluate\<close> over the test dataset. \<open>rnd\<close> is the random source of the first
  training epoch.
\<close>

definition dvc_run ::
  "listing \<Rightarrow> (string \<Rightarrow> error + 'b) \<Rightarrow> ('b \<Rightarrow> error + 'p image) \<Rightarrow>
   ('p image \<Rightarrow> nat \<times> nat \<Rightarrow> nat \<Rightarrow> nat \<Rightarrow> 'q) \<Rightarrow> (nat \<Rightarrow> nat) \<Rightarrow>
   error + (('q image \<times> nat) list list \<times> ('q image \<times> nat) list list \<times> ('q image \<times> nat) list list)" where
  "dvc_run fs read_file decode_jpeg interp rnd =
     bind_r (index_datasets dvc_datapath dvc_nimages fs) (\<lambda>(train, validation, test).
     bind_r (dvc_train_dataset read_file decode_jpeg interp rnd train) (\<lambda>train_batches.
     bind_r (dvc_validation_dataset read_file decode_jpeg interp validation) (\<lambda>validation_batches.
     bind_r (dvc_test_dataset read_file decode_jpeg interp test) (\<lambda>test_batches.
       Inr (train_batches, validation_batches, test_batches)))))"

text \<open>
  The traffic-sign notebook (5535 training images):
  \<^verbatim>\<open>
  BATCH_SIZE = 50
  train_dataset = train_dataset.map(load_image, num_parallel_calls=10)
  train_dataset = train_dataset.shuffle(2000).batch(BATCH_SIZE, drop_remainder=True)
  ...
  test_dataset = test_dataset.map(load_image, num_parallel_calls=10)
  test_dataset = test_dataset.batch(BATCH_SIZE, drop_remainder=False)
  \<close>
\<close>

definition gtsrb_BATCH_SIZE :: nat where
  "gtsrb_BATCH_SIZE = 50"

definition gtsrb_shuffle_buffer :: nat where
  "gtsrb_shuffle_buffer = 2000"


definition gtsrb_validation_dataset ::
  "(string \<Rightarrow> error + 'v ndarray) \<Rightarrow> ('v list image \<Rightarrow> nat \<times> nat \<Rightarrow> nat \<Rightarrow> nat \<Rightarrow> 'q) \<Rightarrow>
   sample list \<Rightarrow> error + ('q image \<times> nat) list list" where
  "gtsrb_validation_dataset image_open interp ds =
     bind_r (ds_map (gtsrb_load_image image_open interp) ds) (\<lambda>loaded.
     bind_r (batch gtsrb_BATCH_SIZE True loaded) (\<lambda>batches.
       Inr (prefetch batches)))"


text \<open>
  The dogs-vs-cats ViT notebook; the images are preprocessed before the datasets are
  built, so the elements are already tensors:
  \<^verbatim>\<open>
  BATCH_SIZE = 32
  dataset_train = tf.data.Dataset.from_tensor_slices((inputs_train.data, image_labels['train']))
  dataset_train = dataset_train.shuffle(len(dataset_train)).batch(BATCH_SIZE,
                                                                  drop_remainder=True)
  dataset_validation = dataset_validation.batch(BATCH_SIZE, drop_remainder=True)
  \<close>
\<close>

definition vit_BATCH_SIZE :: nat where
  "vit_BATCH_SIZE = 32"


definition vit_dataset_validation :: "'a list \<Rightarrow> error + 'a list list" where
  "vit_dataset_validation ds = batch vit_BATCH_SIZE True ds"

text \<open>
  The 20-newsgroups BERT notebook; \<^verbatim>\<open>batch\<close> is called without \<^verbatim>\<open>drop_remainder\<close>, whose
  default is \<^verbatim>\<open>False\<close>:
  \<^verbatim>\<open>
  BATCH_SIZE = 32
  dataset_train = dataset_train.shuffle(len(dataset_train)).batch(BATCH_SIZE)
  dataset_valid = dataset_valid.batch(BATCH_SIZE)
  dataset_test = dataset_test.batch(BATCH_SIZE)
  \<close>
\<close>

definition bert_BATCH_SIZE :: nat where
  "bert_BATCH_SIZE = 32"


definition bert_dataset_valid :: "'a list \<Rightarrow> error + 'a list list" where
  "bert_dataset_valid ds = batch bert_BATCH_SIZE False ds"


section \<open>Well-formed directories and example inputs\<close>

text \<open>
  A directory never lists an empty name, the name \<^verbatim>\<open>.\<close> or a name with a \<^verbatim>\<open>/\<close>, and never
  the same name twice.
\<close>

definition valid_name :: "string \<Rightarrow> bool" where
  "valid_name n \<longleftrightarrow> n \<noteq> [] \<and> n \<noteq> ''.'' \<and> CHR ''/'' \<notin> set n"

definition valid_split :: "listing \<Rightarrow> split \<Rightarrow> bool" where
  "valid_split fs dataset \<longleftrightarrow>
     list_all (\<lambda>p. valid_name (fst p) \<and> valid_name (snd p))
       (glob_star_star (map_of fs (split_name dataset)))"

text \<open>A small tree: two classes, a stray file beside them, and a class unknown to training.\<close>

definition small_fs :: listing where
  "small_fs =
     [(''train'', Dir [(''dog'', Dir [(''d1.jpg'', File), (''d2.jpg'', File)]),
                       (''cat'', Dir [(''c1.jpg'', File)]),
                       (''README'', File)]),
      (''validation'', Dir [(''cat'', Dir [(''c2.jpg'', File)]),
                            (''bird'', Dir [(''b1.jpg'', File)])]),
      (''test'', Dir [(''dog'', Dir [(''d3.jpg'', File), (''d4.jpg'', File)])])]"

fun small_nimages :: "split \<Rightarrow> nat" where
  "small_nimages Train = 3"
| "small_nimages Validation = 2"
| "small_nimages Test = 2"

text \<open>Trees of the size of the dogs-vs-cats data, the second with one test file missing.\<close>

definition ex_name :: "nat \<Rightarrow> string" where
  "ex_name i =
     replicate (i div 900) CHR ''a'' @ replicate (i div 30 mod 30) CHR ''b''
       @ replicate (i mod 30) CHR ''c'' @ ''.jpg''"

definition ex_files :: "nat \<Rightarrow> listing" where
  "ex_files n = map (\<lambda>i. (ex_name i, File)) [0..<n]"

definition ex_fs_short :: listing where
  "ex_fs_short =
     [(''train'', Dir [(''cat'', Dir (ex_files 1000)), (''dog'', Dir (ex_files 1000))]),
      (''validation'', Dir [(''cat'', Dir (ex_files 500)), (''dog'', Dir (ex_files 500))]),
      (''test'', Dir [(''cat'', Dir (ex_files 11000)), (''dog'', Dir (ex_files 10999))])]"

definition ex_train :: "sample list" where
  "ex_train =
     map (\<lambda>i. (dvc_datapath @ ''train/cat/'' @ ex_name i, 0)) [0..<1000]
       @ map (\<lambda>i. (dvc_datapath @ ''train/dog/'' @ ex_name i, 1)) [0..<1000]"

text \<open>
  Files whose content is their own path, a codec that decodes every file to an image of
  one pixel, a PIL reader that opens every file to an array of one pixel of one channel,
  and a resize that copies the first pixel.
\<close>

definition ex_read_file :: "string \<Rightarrow> error + string" where
  "ex_read_file path = Inr path"

definition ex_decode_jpeg :: "string \<Rightarrow> error + string image" where
  "ex_decode_jpeg contents = Inr [[contents]]"


definition ex_interp :: "'a image \<Rightarrow> nat \<times> nat \<Rightarrow> nat \<Rightarrow> nat \<Rightarrow> 'a" where
  "ex_interp img target i j = hd (hd img)"

text \<open>
  Two random sources: one that always draws 0, and one whose first draw is \<open>n - 1\<close> and
  every later draw 0.
\<close>

definition draw_zero :: "nat \<Rightarrow> nat" where
  "draw_zero k = 0"

definition draw_last_first :: "nat \<Rightarrow> nat \<Rightarrow> nat" where
  "draw_last_first n k = (if k = 0 then n - 1 else 0)"


text \<open>A decoded image of two rows of three pixels, and a codec that decodes every file to it.\<close>

definition two_by_three :: "string image" where
  "two_by_three = [[''a'', ''b'', ''c''], [''d'', ''e'', ''f'']]"

definition ex_decode_two_by_three :: "string \<Rightarrow> error + string image" where
  "ex_decode_two_by_three contents = Inr two_by_three"

text \<open>
  Two traffic-sign files of two rows of three pixels: one in colour, which opens to an
  array of three axes, and one with a single channel, which opens to an array of two.
\<close>

definition colour_two_by_three :: "nat list image" where
  "colour_two_by_three =
     [[[255, 0, 0], [0, 255, 0], [0, 0, 255]], [[0, 0, 0], [9, 9, 9], [255, 255, 255]]]"

definition grey_two_by_three :: "nat list list" where
  "grey_two_by_three = [[0, 128, 255], [255, 128, 0]]"

definition ex_open_signs :: "string \<Rightarrow> error + nat ndarray" where
  "ex_open_signs path =
     (if path = ''train/00000/grey.ppm'' then Inr (Array2 grey_two_by_three)
      else Inr (Array3 colour_two_by_three))"

section \<open>Auxiliary facts\<close>

lemma bind_r_Inl [simp]: "bind_r (Inl e) f = Inl e"
  by (simp add: bind_r_def)

lemma bind_r_Inr [simp]: "bind_r (Inr x) f = f x"
  by (simp add: bind_r_def)

lemma bind_r_eq_Inr: "bind_r m f = Inr y \<longleftrightarrow> (\<exists>x. m = Inr x \<and> f x = Inr y)"
  by (cases m) simp_all

lemma batch_chunks_short:
  "0 < n \<Longrightarrow> length xs < n \<Longrightarrow> batch_chunks n d xs = (if xs = [] \<or> d then [] else [xs])"
  by (subst batch_chunks.simps) simp

lemma batch_chunks_step:
  "0 < n \<Longrightarrow> n \<le> length xs \<Longrightarrow> batch_chunks n d xs = take n xs # batch_chunks n d (drop n xs)"
  by (subst batch_chunks.simps) simp

lemma batch_chunks_full:
  "0 < n \<Longrightarrow> b \<in> set (batch_chunks n d xs) \<Longrightarrow> d \<Longrightarrow> length b = n"
proof (induction n d xs rule: batch_chunks.induct)
  case (1 n d xs)
  show ?case
  proof (cases "length xs < n")
    case True
    with "1.prems" show ?thesis by (simp add: batch_chunks_short)
  next
    case False
    then have le: "n \<le> length xs" by simp
    have step: "batch_chunks n d xs = take n xs # batch_chunks n d (drop n xs)"
      using "1.prems"(1) le by (rule batch_chunks_step)
    from "1.prems"(2) have "b = take n xs \<or> b \<in> set (batch_chunks n d (drop n xs))"
      unfolding step by simp
    then show ?thesis
    proof
      assume "b = take n xs"
      with le show ?thesis by simp
    next
      assume "b \<in> set (batch_chunks n d (drop n xs))"
      with "1.IH" False "1.prems" show ?thesis by simp
    qed
  qed
qed

lemma batch_chunks_length_gen:
  "0 < n \<Longrightarrow> d \<Longrightarrow> length (batch_chunks n d xs) = length xs div n"
proof (induction n d xs rule: batch_chunks.induct)
  case (1 n d xs)
  show ?case
  proof (cases "length xs < n")
    case True
    with "1.prems" show ?thesis by (simp add: batch_chunks_short)
  next
    case False
    then have le: "n \<le> length xs" by simp
    have step: "batch_chunks n d xs = take n xs # batch_chunks n d (drop n xs)"
      using "1.prems"(1) le by (rule batch_chunks_step)
    have "length (batch_chunks n d (drop n xs)) = (length xs - n) div n"
      using "1.IH" False "1.prems" by simp
    moreover have "length xs div n = Suc ((length xs - n) div n)"
      using "1.prems"(1) le by (rule le_div_geq)
    ultimately show ?thesis unfolding step by simp
  qed
qed

lemma batch_chunks_length: "0 < n \<Longrightarrow> length (batch_chunks n True xs) = length xs div n"
  by (rule batch_chunks_length_gen) simp_all

lemma batch_chunks_concat_gen:
  "0 < n \<Longrightarrow> d \<Longrightarrow> concat (batch_chunks n d xs) = take (length xs div n * n) xs"
proof (induction n d xs rule: batch_chunks.induct)
  case (1 n d xs)
  show ?case
  proof (cases "length xs < n")
    case True
    with "1.prems" show ?thesis by (simp add: batch_chunks_short)
  next
    case False
    then have le: "n \<le> length xs" by simp
    have step: "batch_chunks n d xs = take n xs # batch_chunks n d (drop n xs)"
      using "1.prems"(1) le by (rule batch_chunks_step)
    have ih: "concat (batch_chunks n d (drop n xs)) = take ((length xs - n) div n * n) (drop n xs)"
      using "1.IH" False "1.prems" by simp
    have dv: "length xs div n = Suc ((length xs - n) div n)"
      using "1.prems"(1) le by (rule le_div_geq)
    have "take (length xs div n * n) xs = take (n + (length xs - n) div n * n) xs"
      unfolding dv by simp
    also have "\<dots> = take n xs @ take ((length xs - n) div n * n) (drop n xs)"
      by (rule take_add)
    finally show ?thesis unfolding step by (simp add: ih)
  qed
qed

lemma batch_chunks_concat_drop:
  "0 < n \<Longrightarrow> concat (batch_chunks n True xs) = take (length xs div n * n) xs"
  by (rule batch_chunks_concat_gen) simp_all

lemma batch_chunks_keep_gen:
  "0 < n \<Longrightarrow> \<not> d \<Longrightarrow> batch_chunks n d xs =
     batch_chunks n True xs @ (if length xs mod n = 0 then [] else [drop (length xs div n * n) xs])"
proof (induction n d xs rule: batch_chunks.induct)
  case (1 n d xs)
  show ?case
  proof (cases "length xs < n")
    case True
    with "1.prems" show ?thesis by (auto simp add: batch_chunks_short)
  next
    case False
    then have le: "n \<le> length xs" by simp
    have step: "batch_chunks n d xs = take n xs # batch_chunks n d (drop n xs)"
      using "1.prems"(1) le by (rule batch_chunks_step)
    have stepT: "batch_chunks n True xs = take n xs # batch_chunks n True (drop n xs)"
      using "1.prems"(1) le by (rule batch_chunks_step)
    have ih: "batch_chunks n d (drop n xs) =
        batch_chunks n True (drop n xs) @
        (if (length xs - n) mod n = 0 then [] else [drop ((length xs - n) div n * n) (drop n xs)])"
      using "1.IH" False "1.prems" by simp
    have dv: "length xs div n = Suc ((length xs - n) div n)"
      using "1.prems"(1) le by (rule le_div_geq)
    have md: "length xs mod n = (length xs - n) mod n"
      using le by (rule le_mod_geq)
    have dr: "drop ((length xs - n) div n * n) (drop n xs) = drop (length xs div n * n) xs"
      unfolding dv by (simp add: add.commute)
    show ?thesis unfolding step stepT ih md dr by simp
  qed
qed

lemma batch_chunks_keep:
  "0 < n \<Longrightarrow> batch_chunks n False xs =
     batch_chunks n True xs @ (if length xs mod n = 0 then [] else [drop (length xs div n * n) xs])"
  by (rule batch_chunks_keep_gen) simp_all


lemma shuffle_go_step:
  "buf @ take (B - length buf) input \<noteq> [] \<Longrightarrow>
   shuffle_go rnd k B buf input =
     (buf @ take (B - length buf) input) ! (rnd k mod length (buf @ take (B - length buf) input))
     # shuffle_go rnd (Suc k) B
         (tl ((buf @ take (B - length buf) input)
            [rnd k mod length (buf @ take (B - length buf) input)
               := hd (buf @ take (B - length buf) input)]))
         (drop (B - length buf) input)"
  by (subst shuffle_go.simps) (simp only: if_False)

lemma shuffle_go_empty:
  "buf @ take (B - length buf) input = [] \<Longrightarrow> shuffle_go rnd k B buf input = []"
  by (subst shuffle_go.simps) (simp only: refl if_True)

lemma mset_pick:
  assumes "b \<noteq> []" and "i < length b"
  shows "add_mset (b ! i) (mset (tl (b[i := hd b]))) = mset b"
proof (cases b)
  case Nil
  with assms show ?thesis by simp
next
  case (Cons x xs)
  show ?thesis
  proof (cases i)
    case 0
    with Cons show ?thesis by simp
  next
    case (Suc j)
    with assms Cons have j: "j < length xs" by simp
    have "mset (xs[j := x]) = add_mset x (mset xs - {#xs ! j#})"
      using j by (simp add: mset_update)
    moreover have "xs ! j \<in># mset xs" using j by simp
    ultimately show ?thesis using Cons Suc by simp
  qed
qed

lemma shuffle_go_mset:
  "0 < B \<Longrightarrow> mset (shuffle_go rnd k B buf input) = mset buf + mset input"
proof (induction rnd k B buf input rule: shuffle_go.induct)
  case (1 rnd k B buf input)
  let ?b = "buf @ take (B - length buf) input"
  show ?case
  proof (cases "?b = []")
    case True
    then have "buf = []" and t: "take (B - length buf) input = []" by auto
    with "1.prems" have "input = []" by (cases input; cases B) simp_all
    with True \<open>buf = []\<close> show ?thesis by (simp add: shuffle_go_empty)
  next
    case False
    let ?i = "rnd k mod length ?b"
    have i: "?i < length ?b" using False by simp
    have ih: "mset (shuffle_go rnd (Suc k) B (tl (?b[?i := hd ?b])) (drop (B - length buf) input))
        = mset (tl (?b[?i := hd ?b])) + mset (drop (B - length buf) input)"
      by (rule "1.IH" [OF False "1.prems"])
    have "shuffle_go rnd k B buf input =
        ?b ! ?i # shuffle_go rnd (Suc k) B (tl (?b[?i := hd ?b])) (drop (B - length buf) input)"
      by (rule shuffle_go_step [OF False])
    then have "mset (shuffle_go rnd k B buf input) =
        add_mset (?b ! ?i)
          (mset (shuffle_go rnd (Suc k) B (tl (?b[?i := hd ?b])) (drop (B - length buf) input)))"
      by (simp only: mset.simps)
    also have "\<dots> = add_mset (?b ! ?i) (mset (tl (?b[?i := hd ?b]))) + mset (drop (B - length buf) input)"
      by (simp only: ih union_mset_add_mset_left)
    also have "\<dots> = mset ?b + mset (drop (B - length buf) input)"
      by (simp only: mset_pick [OF False i])
    also have "\<dots> = mset buf + mset (take (B - length buf) input @ drop (B - length buf) input)"
      by (simp only: mset_append add.assoc)
    finally show ?thesis by (simp only: append_take_drop_id)
  qed
qed

lemma ds_map_length: "ds_map f xs = Inr ys \<Longrightarrow> length ys = length xs"
proof (induction xs arbitrary: ys)
  case Nil
  then show ?case by simp
next
  case (Cons x xs)
  then show ?case by (auto simp: bind_r_eq_Inr)
qed


lemma ds_map_total:
  "(\<And>x. x \<in> set xs \<Longrightarrow> f x = Inr (g x)) \<Longrightarrow> ds_map f xs = Inr (map g xs)"
  by (induction xs) simp_all

lemma shuffle_go_length:
  "0 < B \<Longrightarrow> length (shuffle_go rnd k B buf input) = length buf + length input"
proof -
  assume "0 < B"
  then have "size (mset (shuffle_go rnd k B buf input)) = size (mset buf + mset input)"
    by (simp only: shuffle_go_mset)
  then show ?thesis by simp
qed

lemma shuffle_go_zero:
  "0 < B \<Longrightarrow> shuffle_go draw_zero k B buf input = buf @ input"
proof (induction draw_zero k B buf input rule: shuffle_go.induct)
  case (1 k B buf input)
  let ?b = "buf @ take (B - length buf) input"
  show ?case
  proof (cases "?b = []")
    case True
    then have "buf = []" and t: "take (B - length buf) input = []" by auto
    with "1.prems" have "input = []" by (cases input; cases B) simp_all
    with True \<open>buf = []\<close> show ?thesis by (simp add: shuffle_go_empty)
  next
    case False
    have z: "draw_zero k mod length ?b = 0" by (simp add: draw_zero_def)
    have upd: "?b[0 := hd ?b] = ?b" using False by (cases ?b) simp_all
    have ih: "shuffle_go draw_zero (Suc k) B (tl ?b) (drop (B - length buf) input)
        = tl ?b @ drop (B - length buf) input"
      using "1.hyps" [OF False "1.prems"] unfolding z upd .
    have "shuffle_go draw_zero k B buf input =
        ?b ! 0 # shuffle_go draw_zero (Suc k) B (tl ?b) (drop (B - length buf) input)"
      using shuffle_go_step [OF False, of draw_zero k] unfolding z upd .
    also have "\<dots> = ?b ! 0 # tl ?b @ drop (B - length buf) input"
      by (simp only: ih)
    also have "\<dots> = ?b @ drop (B - length buf) input"
      using False by (cases ?b) simp_all
    also have "\<dots> = buf @ input" by simp
    finally show ?thesis .
  qed
qed

lemma batch_Inr: "0 < n \<Longrightarrow> batch n d xs = Inr (batch_chunks n d xs)"
  by (simp add: batch_def)




lemma batch_chunks_keep_length:
  assumes n: "0 < n"
  shows "length (batch_chunks n False xs) = length xs div n + (if length xs mod n = 0 then 0 else 1)"
  using n by (simp add: batch_chunks_keep batch_chunks_length)

lemma batch_chunks_keep_full:
  assumes n: "0 < n"
  shows "list_all (\<lambda>b. length b = n) (take (length xs div n) (batch_chunks n False xs))"
proof -
  have "take (length xs div n) (batch_chunks n False xs) = batch_chunks n True xs"
    using n by (simp add: batch_chunks_keep batch_chunks_length)
  moreover have "list_all (\<lambda>b. length b = n) (batch_chunks n True xs)"
    using n by (auto simp: list_all_iff dest: batch_chunks_full)
  ultimately show ?thesis by simp
qed

lemma ex_train_length: "length ex_train = 2000"
  by (simp add: ex_train_def)

lemma ex_load_image:
  "load_image ex_read_file ex_decode_jpeg ex_interp s =
     Inr (map (\<lambda>i. map (\<lambda>j. fst s) [0..<snd dvc_INPUT_IMAGE_SIZE]) [0..<fst dvc_INPUT_IMAGE_SIZE], snd s)"
  by (cases s) (simp add: load_image_def ex_read_file_def ex_decode_jpeg_def ex_interp_def resize_def)





lemma dvc_train_dataset_run:
  "ds_map (load_image read_file decode_jpeg interp) ds = Inr loaded \<Longrightarrow>
   dvc_train_dataset read_file decode_jpeg interp rnd ds =
     Inr (batch_chunks dvc_BATCH_SIZE True (shuffle_go rnd 0 dvc_shuffle_buffer [] loaded))"
  by (simp add: dvc_train_dataset_def shuffle_def batch_def prefetch_def dvc_BATCH_SIZE_def
      dvc_shuffle_buffer_def)




lemma drop_remainder_full:
  assumes "0 < n" and "0 < B"
  shows "list_all (\<lambda>b. length b = n) (batch_chunks n True (shuffle_go rnd 0 B [] xs))"
    and "length (batch_chunks n True (shuffle_go rnd 0 B [] xs)) = length xs div n"
  using assms
  by (auto simp: list_all_iff batch_chunks_length shuffle_go_length dest: batch_chunks_full)




lemma drop_remainder_concat:
  assumes "0 < n" and "0 < B"
  shows "length (concat (batch_chunks n True (shuffle_go rnd 0 B [] xs))) = length xs div n * n"
    and "mset (concat (batch_chunks n True (shuffle_go rnd 0 B [] xs))) \<subseteq># mset xs"
proof -
  let ?s = "shuffle_go rnd 0 B [] xs"
  have c: "concat (batch_chunks n True ?s) = take (length xs div n * n) ?s"
    using assms by (simp add: batch_chunks_concat_drop shuffle_go_length)
  have "length xs div n * n \<le> length xs" by simp
  then show "length (concat (batch_chunks n True ?s)) = length xs div n * n"
    using assms unfolding c by (simp add: shuffle_go_length)
  have "mset (take (length xs div n * n) ?s) \<subseteq># mset ?s"
    by (metis append_take_drop_id mset_append mset_subset_eq_add_left)
  then show "mset (concat (batch_chunks n True ?s)) \<subseteq># mset xs"
    using assms unfolding c by (simp add: shuffle_go_mset)
qed

text \<open>
  C1 (as amended). With 2000 training samples that load, the training dataset of the
  dogs-vs-cats notebook (shuffle, then batches of 32 with \<^verbatim>\<open>drop_remainder=True\<close>) yields,
  whatever the shuffle draws, exactly 62 batches of exactly 32 samples each, all of them
  samples of the split, and leaves out 16 samples (2000 - 62 * 32), not 4.
\<close>

theorem dvc_train_62_batches_16_dropped:
  "length ds = 2000 \<and> ds_map (load_image read_file decode_jpeg interp) ds = Inr loaded \<longrightarrow>
     (\<exists>bs. dvc_train_dataset read_file decode_jpeg interp rnd ds = Inr bs \<and>
        length bs = 62 \<and> list_all (\<lambda>b. length b = 32) bs \<and>
        mset (concat bs) \<subseteq># mset loaded \<and>
        length ds - length (concat bs) = 16)"
proof
  assume h: "length ds = 2000 \<and> ds_map (load_image read_file decode_jpeg interp) ds = Inr loaded"
  then have l: "ds_map (load_image read_file decode_jpeg interp) ds = Inr loaded" and n: "length ds = 2000"
    by simp_all
  have len: "length loaded = 2000" using ds_map_length [OF l] n by simp
  have p: "0 < dvc_BATCH_SIZE" "0 < dvc_shuffle_buffer"
    by (simp_all add: dvc_BATCH_SIZE_def dvc_shuffle_buffer_def)
  show "\<exists>bs. dvc_train_dataset read_file decode_jpeg interp rnd ds = Inr bs \<and>
        length bs = 62 \<and> list_all (\<lambda>b. length b = 32) bs \<and>
        mset (concat bs) \<subseteq># mset loaded \<and>
        length ds - length (concat bs) = 16"
    using drop_remainder_full [OF p, of rnd loaded] drop_remainder_concat [OF p, of rnd loaded]
    by (simp add: dvc_train_dataset_run [OF l] len n dvc_BATCH_SIZE_def)
qed

theorem dvc_train_62_batches_16_dropped_witness:
  "length ex_train = 2000 \<and>
   (\<exists>loaded. ds_map (load_image ex_read_file ex_decode_jpeg ex_interp) ex_train = Inr loaded \<and>
     (\<exists>bs. dvc_train_dataset ex_read_file ex_decode_jpeg ex_interp draw_zero ex_train = Inr bs \<and>
        length bs = 62 \<and> list_all (\<lambda>b. length b = 32) bs \<and>
        mset (concat bs) \<subseteq># mset loaded \<and>
        length ex_train - length (concat bs) = 16))"
proof -
  let ?g = "\<lambda>s::sample. (map (\<lambda>i. map (\<lambda>j. fst s) [0..<snd dvc_INPUT_IMAGE_SIZE])
      [0..<fst dvc_INPUT_IMAGE_SIZE], snd s)"
  have a: "ds_map (load_image ex_read_file ex_decode_jpeg ex_interp) ex_train = Inr (map ?g ex_train)"
    by (rule ds_map_total) (rule ex_load_image)
  show ?thesis
    using dvc_train_62_batches_16_dropped
      [of ex_train ex_read_file ex_decode_jpeg ex_interp "map ?g ex_train" draw_zero]
    unfolding a by (simp add: ex_train_length)
qed

text \<open>
  C1 as stated fails: on 2000 training samples the dogs-vs-cats training dataset leaves
  out 16 samples, so not 4.
\<close>

theorem dvc_train_drops_four_counterexample:
  "length ex_train = 2000 \<and>
   \<not> isl (dvc_train_dataset ex_read_file ex_decode_jpeg ex_interp draw_zero ex_train) \<and>
   length ex_train
     - length (concat (projr (dvc_train_dataset ex_read_file ex_decode_jpeg ex_interp draw_zero ex_train)))
     \<noteq> 4"
proof -
  let ?g = "\<lambda>s::sample. (map (\<lambda>i. map (\<lambda>j. fst s) [0..<snd dvc_INPUT_IMAGE_SIZE])
      [0..<fst dvc_INPUT_IMAGE_SIZE], snd s)"
  have a: "ds_map (load_image ex_read_file ex_decode_jpeg ex_interp) ex_train = Inr (map ?g ex_train)"
    by (rule ds_map_total) (rule ex_load_image)
  have p: "0 < dvc_BATCH_SIZE" "0 < dvc_shuffle_buffer"
    by (simp_all add: dvc_BATCH_SIZE_def dvc_shuffle_buffer_def)
  show ?thesis
    using drop_remainder_concat(1) [OF p, of draw_zero "map ?g ex_train"]
    by (simp add: dvc_train_dataset_run [OF a] ex_train_length dvc_BATCH_SIZE_def)
qed

lemma shuffle_go_zero_from:
  "0 < B \<Longrightarrow> (\<And>j. k \<le> j \<Longrightarrow> rnd j = 0) \<Longrightarrow> shuffle_go rnd k B buf input = buf @ input"
proof (induction rnd k B buf input rule: shuffle_go.induct)
  case (1 rnd k B buf input)
  let ?b = "buf @ take (B - length buf) input"
  show ?case
  proof (cases "?b = []")
    case True
    then have "buf = []" and t: "take (B - length buf) input = []" by auto
    with "1.prems"(1) have "input = []" by (cases input; cases B) simp_all
    with True \<open>buf = []\<close> show ?thesis by (simp add: shuffle_go_empty)
  next
    case False
    have "rnd k = 0" by (rule "1.prems"(2)) simp
    then have z: "rnd k mod length ?b = 0" by simp
    have upd: "?b[0 := hd ?b] = ?b" using False by (cases ?b) simp_all
    have later: "\<And>j. Suc k \<le> j \<Longrightarrow> rnd j = 0" by (rule "1.prems"(2)) simp
    have ih: "shuffle_go rnd (Suc k) B (tl ?b) (drop (B - length buf) input)
        = tl ?b @ drop (B - length buf) input"
      using "1.IH" [OF False "1.prems"(1) later] unfolding z upd .
    have "shuffle_go rnd k B buf input =
        ?b ! 0 # shuffle_go rnd (Suc k) B (tl ?b) (drop (B - length buf) input)"
      using shuffle_go_step [OF False, of rnd k] unfolding z upd .
    also have "\<dots> = ?b ! 0 # tl ?b @ drop (B - length buf) input"
      by (simp only: ih)
    also have "\<dots> = ?b @ drop (B - length buf) input"
      using False by (cases ?b) simp_all
    also have "\<dots> = buf @ input" by simp
    finally show ?thesis .
  qed
qed

lemma shuffle_go_last_first:
  assumes ne: "xs \<noteq> []" and B: "length xs \<le> B"
  shows "shuffle_go (draw_last_first (length xs)) 0 B [] xs
           = last xs # tl (xs[length xs - 1 := hd xs])"
proof -
  let ?r = "draw_last_first (length xs)"
  have b: "[] @ take (B - length ([]::'a list)) xs = xs" using B by simp
  have d: "drop (B - length ([]::'a list)) xs = []" using B by simp
  have i: "?r 0 mod length xs = length xs - 1"
    using ne by (simp add: draw_last_first_def)
  have pos: "0 < B" using ne B by (cases xs) auto
  have "shuffle_go ?r 0 B [] xs =
      xs ! (length xs - 1) # shuffle_go ?r (Suc 0) B (tl (xs[length xs - 1 := hd xs])) []"
    using shuffle_go_step [of "[]" B xs ?r 0] ne unfolding b d i by simp
  moreover have "shuffle_go ?r (Suc 0) B (tl (xs[length xs - 1 := hd xs])) []
      = tl (xs[length xs - 1 := hd xs]) @ []"
    using pos by (rule shuffle_go_zero_from) (simp add: draw_last_first_def)
  moreover have "xs ! (length xs - 1) = last xs"
    using ne by (simp add: last_conv_nth)
  ultimately show ?thesis by simp
qed

lemma take_last_first:
  assumes "Suc m < length ys"
  shows "take (Suc m) (last ys # tl (ys[length ys - 1 := hd ys])) = last ys # take m (tl ys)"
proof (cases ys)
  case Nil
  with assms show ?thesis by simp
next
  case (Cons y ys')
  with assms have m: "m < length ys'" by simp
  then obtain k where k: "length ys' = Suc k" by (cases "length ys'") simp_all
  with m have "m \<le> k" by simp
  then have "take m (ys'[k := y]) = take m ys'" by simp
  with Cons k show ?thesis by simp
qed

lemma take_Suc_hd: "ys \<noteq> [] \<Longrightarrow> take (Suc m) ys = hd ys # take m (tl ys)"
  by (cases ys) simp_all

lemma epochs_differ:
  assumes len: "Suc m < length ys" and B: "length ys \<le> B" and d: "hd ys \<noteq> last ys"
  shows "mset (take (Suc m) (shuffle_go draw_zero 0 B [] ys))
       \<noteq> mset (take (Suc m) (shuffle_go (draw_last_first (length ys)) 0 B [] ys))"
proof -
  from len have ne: "ys \<noteq> []" by auto
  then have pos: "0 < B" using B by (cases ys) auto
  have a: "take (Suc m) (shuffle_go draw_zero 0 B [] ys) = hd ys # take m (tl ys)"
    using pos ne by (simp add: shuffle_go_zero take_Suc_hd)
  have b: "take (Suc m) (shuffle_go (draw_last_first (length ys)) 0 B [] ys)
      = last ys # take m (tl ys)"
    by (simp only: shuffle_go_last_first [OF ne B] take_last_first [OF len])
  show ?thesis unfolding a b using d by simp
qed

lemma ex_loaded_ends:
  fixes g :: "sample \<Rightarrow> 'x \<times> nat"
  assumes "\<And>s. snd (g s) = snd s"
  shows "hd (map g ex_train) \<noteq> last (map g ex_train)"
proof -
  have ne: "ex_train \<noteq> []" using ex_train_length by auto
  have "snd (hd ex_train) = 0"
    by (simp add: ex_train_def hd_append hd_map)
  moreover have "snd (last ex_train) = 1"
    by (simp add: ex_train_def last_map)
  ultimately have "snd (hd (map g ex_train)) \<noteq> snd (last (map g ex_train))"
    using ne assms by (simp add: hd_map last_map)
  then show ?thesis by auto
qed

text \<open>
  C8 (as amended). Two epochs of the dogs-vs-cats training dataset, with whatever random
  draws, shuffle the same multiset of samples: the order of each epoch is a permutation
  of the loaded samples. Both epochs omit the partial final batch: each yields the first
  \<open>size div 32 * 32\<close> samples of its own order. The samples the two epochs yield are the
  same multiset when 32 divides the size of the split; otherwise the omitted samples
  depend on the order. Nothing is said on how probable two equal orders are.
\<close>

theorem dvc_train_epochs_shuffle_same_samples:
  "ds_map (load_image read_file decode_jpeg interp) ds = Inr loaded \<longrightarrow>
     (\<exists>s1 s2 bs1 bs2.
        shuffle dvc_shuffle_buffer rnd1 loaded = Inr s1 \<and>
        shuffle dvc_shuffle_buffer rnd2 loaded = Inr s2 \<and>
        mset s1 = mset loaded \<and> mset s2 = mset loaded \<and>
        dvc_train_dataset read_file decode_jpeg interp rnd1 ds = Inr bs1 \<and>
        dvc_train_dataset read_file decode_jpeg interp rnd2 ds = Inr bs2 \<and>
        concat bs1 = take (length ds div dvc_BATCH_SIZE * dvc_BATCH_SIZE) s1 \<and>
        concat bs2 = take (length ds div dvc_BATCH_SIZE * dvc_BATCH_SIZE) s2 \<and>
        (dvc_BATCH_SIZE dvd length ds \<longrightarrow> mset (concat bs1) = mset (concat bs2)))"
proof
  assume l: "ds_map (load_image read_file decode_jpeg interp) ds = Inr loaded"
  have len: "length loaded = length ds" using l by (rule ds_map_length)
  have p: "0 < dvc_BATCH_SIZE" and q: "0 < dvc_shuffle_buffer"
    by (simp_all add: dvc_BATCH_SIZE_def dvc_shuffle_buffer_def)
  let ?s1 = "shuffle_go rnd1 0 dvc_shuffle_buffer [] loaded"
  let ?s2 = "shuffle_go rnd2 0 dvc_shuffle_buffer [] loaded"
  let ?k = "length ds div dvc_BATCH_SIZE * dvc_BATCH_SIZE"
  have s: "shuffle dvc_shuffle_buffer rnd1 loaded = Inr ?s1"
      "shuffle dvc_shuffle_buffer rnd2 loaded = Inr ?s2"
    using q by (simp_all add: shuffle_def)
  have m: "mset ?s1 = mset loaded" "mset ?s2 = mset loaded"
    using q by (simp_all add: shuffle_go_mset)
  have n: "length ?s1 = length ds" "length ?s2 = length ds"
    using q by (simp_all add: shuffle_go_length len)
  have c: "concat (batch_chunks dvc_BATCH_SIZE True ?s1) = take ?k ?s1"
      "concat (batch_chunks dvc_BATCH_SIZE True ?s2) = take ?k ?s2"
    using p by (simp_all add: batch_chunks_concat_drop n)
  have e: "dvc_BATCH_SIZE dvd length ds \<longrightarrow> mset (take ?k ?s1) = mset (take ?k ?s2)"
  proof
    assume "dvc_BATCH_SIZE dvd length ds"
    then have "?k = length ds" by simp
    then show "mset (take ?k ?s1) = mset (take ?k ?s2)" by (simp add: n m)
  qed
  show "\<exists>s1 s2 bs1 bs2.
        shuffle dvc_shuffle_buffer rnd1 loaded = Inr s1 \<and>
        shuffle dvc_shuffle_buffer rnd2 loaded = Inr s2 \<and>
        mset s1 = mset loaded \<and> mset s2 = mset loaded \<and>
        dvc_train_dataset read_file decode_jpeg interp rnd1 ds = Inr bs1 \<and>
        dvc_train_dataset read_file decode_jpeg interp rnd2 ds = Inr bs2 \<and>
        concat bs1 = take ?k s1 \<and> concat bs2 = take ?k s2 \<and>
        (dvc_BATCH_SIZE dvd length ds \<longrightarrow> mset (concat bs1) = mset (concat bs2))"
    using s m c e by (simp add: dvc_train_dataset_run [OF l])
qed

theorem dvc_train_epochs_shuffle_same_samples_witness:
  "(\<exists>loaded. ds_map (load_image ex_read_file ex_decode_jpeg ex_interp) (take 64 ex_train) = Inr loaded \<and>
     dvc_BATCH_SIZE dvd length (take 64 ex_train) \<and>
     (\<exists>s1 s2 bs1 bs2.
        shuffle dvc_shuffle_buffer draw_zero loaded = Inr s1 \<and>
        shuffle dvc_shuffle_buffer (draw_last_first 64) loaded = Inr s2 \<and>
        mset s1 = mset loaded \<and> mset s2 = mset loaded \<and>
        dvc_train_dataset ex_read_file ex_decode_jpeg ex_interp draw_zero (take 64 ex_train) = Inr bs1 \<and>
        dvc_train_dataset ex_read_file ex_decode_jpeg ex_interp (draw_last_first 64) (take 64 ex_train) = Inr bs2 \<and>
        concat bs1 = take 64 s1 \<and> concat bs2 = take 64 s2 \<and>
        mset (concat bs1) = mset (concat bs2)))"
proof -
  let ?g = "\<lambda>s::sample. (map (\<lambda>i. map (\<lambda>j. fst s) [0..<snd dvc_INPUT_IMAGE_SIZE])
      [0..<fst dvc_INPUT_IMAGE_SIZE], snd s)"
  have a: "ds_map (load_image ex_read_file ex_decode_jpeg ex_interp) (take 64 ex_train)
      = Inr (map ?g (take 64 ex_train))"
    by (rule ds_map_total) (rule ex_load_image)
  have c: "length (take 64 ex_train) = 64" by (simp add: ex_train_length)
  have d: "dvc_BATCH_SIZE dvd 64" "64 div dvc_BATCH_SIZE * dvc_BATCH_SIZE = 64"
    by (simp_all add: dvc_BATCH_SIZE_def)
  show ?thesis
    using dvc_train_epochs_shuffle_same_samples
      [of ex_read_file ex_decode_jpeg ex_interp "take 64 ex_train" "map ?g (take 64 ex_train)"
          draw_zero "draw_last_first 64"]
    unfolding a c by (simp add: d)
qed

text \<open>
  C8 as stated fails: on 2000 training samples, an epoch that draws 0 throughout and an
  epoch whose first draw is the last sample yield different multisets of samples. The
  first epoch omits the last 16 samples of the enumeration; the second yields the last
  sample of the enumeration and omits the first.
\<close>

theorem dvc_train_epochs_same_multiset_counterexample:
  "\<not> isl (dvc_train_dataset ex_read_file ex_decode_jpeg ex_interp draw_zero ex_train) \<and>
   \<not> isl (dvc_train_dataset ex_read_file ex_decode_jpeg ex_interp (draw_last_first 2000) ex_train) \<and>
   mset (concat (projr (dvc_train_dataset ex_read_file ex_decode_jpeg ex_interp draw_zero ex_train)))
     \<noteq> mset (concat (projr
           (dvc_train_dataset ex_read_file ex_decode_jpeg ex_interp (draw_last_first 2000) ex_train)))"
proof -
  let ?g = "\<lambda>s::sample. (map (\<lambda>i. map (\<lambda>j. fst s) [0..<snd dvc_INPUT_IMAGE_SIZE])
      [0..<fst dvc_INPUT_IMAGE_SIZE], snd s)"
  let ?ys = "map ?g ex_train"
  have a: "ds_map (load_image ex_read_file ex_decode_jpeg ex_interp) ex_train = Inr ?ys"
    by (rule ds_map_total) (rule ex_load_image)
  have len: "length ?ys = 2000" by (simp add: ex_train_length)
  have p: "0 < dvc_BATCH_SIZE" and q: "0 < dvc_shuffle_buffer"
    by (simp_all add: dvc_BATCH_SIZE_def dvc_shuffle_buffer_def)
  have k: "2000 div dvc_BATCH_SIZE * dvc_BATCH_SIZE = Suc 1983"
    by (simp add: dvc_BATCH_SIZE_def)
  have c: "concat (batch_chunks dvc_BATCH_SIZE True (shuffle_go rnd 0 dvc_shuffle_buffer [] ?ys))
      = take (Suc 1983) (shuffle_go rnd 0 dvc_shuffle_buffer [] ?ys)" for rnd
    using p q by (simp only: batch_chunks_concat_drop shuffle_go_length len k list.size add_0)
  have ends: "hd ?ys \<noteq> last ?ys" by (rule ex_loaded_ends) simp
  have r: "dvc_train_dataset ex_read_file ex_decode_jpeg ex_interp rnd ex_train
      = Inr (batch_chunks dvc_BATCH_SIZE True (shuffle_go rnd 0 dvc_shuffle_buffer [] ?ys))" for rnd
    using a by (rule dvc_train_dataset_run)
  have "mset (take (Suc 1983) (shuffle_go draw_zero 0 dvc_shuffle_buffer [] ?ys))
      \<noteq> mset (take (Suc 1983) (shuffle_go (draw_last_first (length ?ys)) 0 dvc_shuffle_buffer [] ?ys))"
    by (rule epochs_differ) (simp_all only: len ends dvc_shuffle_buffer_def, simp_all)
  then show ?thesis
    by (simp only: r c len sum.sel sum.disc not_False_eq_True simp_thms)
qed

lemma shuffle_go_hd:
  assumes "buf @ take (B - length buf) input \<noteq> []"
  shows "hd (shuffle_go rnd k B buf input) \<in> set (buf @ take (B - length buf) input)"
proof -
  let ?b = "buf @ take (B - length buf) input"
  have "rnd k mod length ?b < length ?b" using assms by simp
  then have "?b ! (rnd k mod length ?b) \<in> set ?b" by (rule nth_mem)
  then show ?thesis by (simp only: shuffle_go_step [OF assms] list.sel)
qed

text \<open>
  C4. The specification asks for a shuffle buffer at least as large as the training split. The
  traffic-sign notebook shuffles its 5535 training samples through a buffer of 2000:
  whatever the random draws, the first sample of an epoch is one of the first 2000
  samples of the enumeration (the samples are numbered here by their position).
\<close>

theorem gtsrb_shuffle_buffer_smaller_than_split:
  "gtsrb_shuffle_buffer < gtsrb_nimages Train \<and>
   \<not> isl (shuffle gtsrb_shuffle_buffer rnd [0..<gtsrb_nimages Train]) \<and>
   length (projr (shuffle gtsrb_shuffle_buffer rnd [0..<gtsrb_nimages Train])) = gtsrb_nimages Train \<and>
   hd (projr (shuffle gtsrb_shuffle_buffer rnd [0..<gtsrb_nimages Train])) < gtsrb_shuffle_buffer"
proof -
  have t: "[] @ take (2000 - length ([]::nat list)) [0..<5535] = [0..<2000]"
    by (simp add: take_upt)
  then have ne: "[] @ take (2000 - length ([]::nat list)) [0..<5535] \<noteq> []"
    by simp
  have "hd (shuffle_go rnd 0 2000 [] [0..<5535]) \<in> set [0..<2000]"
    using shuffle_go_hd [OF ne, of rnd 0] unfolding t .
  then show ?thesis
    by (simp add: gtsrb_shuffle_buffer_def shuffle_def shuffle_go_length)
qed

lemma resize_shape:
  "resize interp img target = Inr out \<Longrightarrow>
   length out = fst target \<and> list_all (\<lambda>row. length row = snd target) out"
  by (auto simp: resize_def list_all_iff split: if_splits)

lemma resize_ok:
  "img \<noteq> [] \<Longrightarrow> hd img \<noteq> [] \<Longrightarrow> \<exists>out. resize interp img target = Inr out"
  by (simp add: resize_def)

text \<open>
  C7. Whatever the file holds and whatever the dimensions of the decoded image, a sample
  that loads yields an image of exactly the configured resolution (256 rows of 256 pixels
  in the dogs-vs-cats notebook, 80 rows of 80 pixels in the traffic-sign notebook) together
  with the label it was given. In the dogs-vs-cats notebook every sample whose file is read
  and decoded to an image with at least one pixel loads, and each pixel of the result is
  the one the resize computes from that decoded image. In the traffic-sign notebook a
  sample loads only if its file opens to an array of three axes; every such array with at
  least one pixel loads, each pixel of the result being the one the resize computes from
  it, and a file that opens to an array of two axes (a single channel) fails.
\<close>

theorem load_image_yields_target_resolution:
  "(load_image read_file decode_jpeg interp (path, label) = Inr (resized, l) \<longrightarrow>
      length resized = 256 \<and> list_all (\<lambda>row. length row = 256) resized \<and> l = label) \<and>
   (read_file path = Inr contents \<and> decode_jpeg contents = Inr original \<and>
      original \<noteq> [] \<and> hd original \<noteq> [] \<longrightarrow>
      load_image read_file decode_jpeg interp (path, label) =
        Inr (map (\<lambda>i. map (\<lambda>j. interp original (256, 256) i j) [0..<256]) [0..<256], label)) \<and>
   (gtsrb_load_image image_open interp' (path, label) = Inr (resized', l') \<longrightarrow>
      length resized' = 80 \<and> list_all (\<lambda>row. length row = 80) resized' \<and> l' = label \<and>
      (\<exists>opened. image_open path = Inr (Array3 opened))) \<and>
   (image_open path = Inr (Array3 original') \<and> original' \<noteq> [] \<and> hd original' \<noteq> [] \<longrightarrow>
      gtsrb_load_image image_open interp' (path, label) =
        Inr (map (\<lambda>i. map (\<lambda>j. interp' original' (80, 80) i j) [0..<80]) [0..<80], label)) \<and>
   (image_open path = Inr (Array2 grey) \<longrightarrow>
      gtsrb_load_image image_open interp' (path, label) = Inl InvalidArgumentError)"
proof -
  have a: "load_image read_file decode_jpeg interp (path, label) = Inr (resized, l) \<longrightarrow>
      length resized = 256 \<and> list_all (\<lambda>row. length row = 256) resized \<and> l = label"
  proof
    assume "load_image read_file decode_jpeg interp (path, label) = Inr (resized, l)"
    then obtain img where "resize interp img dvc_INPUT_IMAGE_SIZE = Inr resized" and "l = label"
      by (auto simp: load_image_def bind_r_eq_Inr)
    then show "length resized = 256 \<and> list_all (\<lambda>row. length row = 256) resized \<and> l = label"
      using resize_shape [of interp img dvc_INPUT_IMAGE_SIZE resized]
      by (simp add: dvc_INPUT_IMAGE_SIZE_def)
  qed
  have b: "read_file path = Inr contents \<and> decode_jpeg contents = Inr original \<and>
      original \<noteq> [] \<and> hd original \<noteq> [] \<longrightarrow>
      load_image read_file decode_jpeg interp (path, label) =
        Inr (map (\<lambda>i. map (\<lambda>j. interp original (256, 256) i j) [0..<256]) [0..<256], label)"
    by (simp add: load_image_def resize_def dvc_INPUT_IMAGE_SIZE_def)
  have c: "gtsrb_load_image image_open interp' (path, label) = Inr (resized', l') \<longrightarrow>
      length resized' = 80 \<and> list_all (\<lambda>row. length row = 80) resized' \<and> l' = label \<and>
      (\<exists>opened. image_open path = Inr (Array3 opened))"
  proof
    assume "gtsrb_load_image image_open interp' (path, label) = Inr (resized', l')"
    then obtain array img where o: "image_open path = Inr array" and s: "set_shape3 array = Inr img"
      and r: "resize interp' img gtsrb_INPUT_IMAGE_SIZE = Inr resized'" and l: "l' = label"
      by (auto simp: gtsrb_load_image_def bind_r_eq_Inr)
    from s have "array = Array3 img" by (cases array) simp_all
    with o have "\<exists>opened. image_open path = Inr (Array3 opened)" by blast
    with r l show "length resized' = 80 \<and> list_all (\<lambda>row. length row = 80) resized' \<and> l' = label \<and>
        (\<exists>opened. image_open path = Inr (Array3 opened))"
      using resize_shape [of interp' img gtsrb_INPUT_IMAGE_SIZE resized']
      by (simp add: gtsrb_INPUT_IMAGE_SIZE_def)
  qed
  have d: "image_open path = Inr (Array3 original') \<and> original' \<noteq> [] \<and> hd original' \<noteq> [] \<longrightarrow>
      gtsrb_load_image image_open interp' (path, label) =
        Inr (map (\<lambda>i. map (\<lambda>j. interp' original' (80, 80) i j) [0..<80]) [0..<80], label)"
    by (simp add: gtsrb_load_image_def resize_def gtsrb_INPUT_IMAGE_SIZE_def)
  have e: "image_open path = Inr (Array2 grey) \<longrightarrow>
      gtsrb_load_image image_open interp' (path, label) = Inl InvalidArgumentError"
    by (simp add: gtsrb_load_image_def)
  from a b c d e show ?thesis by (intro conjI)
qed

theorem load_image_yields_target_resolution_witness:
  "ex_read_file ''train/cat/c1.jpg'' = Inr ''train/cat/c1.jpg'' \<and>
   ex_decode_two_by_three ''train/cat/c1.jpg'' = Inr two_by_three \<and>
   length two_by_three = 2 \<and> length (hd two_by_three) = 3 \<and>
   (\<exists>resized.
      load_image ex_read_file ex_decode_two_by_three ex_interp (''train/cat/c1.jpg'', 0) = Inr (resized, 0) \<and>
      length resized = 256 \<and> list_all (\<lambda>row. length row = 256) resized) \<and>
   ex_open_signs ''train/00000/colour.ppm'' = Inr (Array3 colour_two_by_three) \<and>
   length colour_two_by_three = 2 \<and> length (hd colour_two_by_three) = 3 \<and>
   (\<exists>resized.
      gtsrb_load_image ex_open_signs ex_interp (''train/00000/colour.ppm'', 0) = Inr (resized, 0) \<and>
      length resized = 80 \<and> list_all (\<lambda>row. length row = 80) resized) \<and>
   ex_open_signs ''train/00000/grey.ppm'' = Inr (Array2 grey_two_by_three) \<and>
   gtsrb_load_image ex_open_signs ex_interp (''train/00000/grey.ppm'', 0) = Inl InvalidArgumentError"
proof -
  let ?R = "map (\<lambda>i. map (\<lambda>j. ex_interp two_by_three (256, 256) i j) [0..<256]) [0..<256]"
  let ?S = "map (\<lambda>i. map (\<lambda>j. ex_interp colour_two_by_three (80, 80) i j) [0..<80]) [0..<80]"
  have e: "ex_read_file ''train/cat/c1.jpg'' = Inr ''train/cat/c1.jpg''"
      "ex_decode_two_by_three ''train/cat/c1.jpg'' = Inr two_by_three"
      "length two_by_three = 2" "length (hd two_by_three) = 3"
      "two_by_three \<noteq> []" "hd two_by_three \<noteq> []"
    by (simp_all add: ex_read_file_def ex_decode_two_by_three_def two_by_three_def)
  have f: "ex_open_signs ''train/00000/colour.ppm'' = Inr (Array3 colour_two_by_three)"
      "length colour_two_by_three = 2" "length (hd colour_two_by_three) = 3"
      "colour_two_by_three \<noteq> []" "hd colour_two_by_three \<noteq> []"
      "ex_open_signs ''train/00000/grey.ppm'' = Inr (Array2 grey_two_by_three)"
    by (simp_all add: ex_open_signs_def colour_two_by_three_def)
  note dvc = load_image_yields_target_resolution
      [where read_file = ex_read_file and decode_jpeg = ex_decode_two_by_three and interp = ex_interp
         and path = "''train/cat/c1.jpg''" and label = 0 and contents = "''train/cat/c1.jpg''"
         and original = two_by_three and resized = ?R and l = 0]
  note colour = load_image_yields_target_resolution
      [where image_open = ex_open_signs and interp' = ex_interp
         and path = "''train/00000/colour.ppm''" and label = 0 and original' = colour_two_by_three
         and resized' = ?S and l' = 0]
  note grey = load_image_yields_target_resolution
      [where image_open = ex_open_signs and interp' = ex_interp
         and path = "''train/00000/grey.ppm''" and label = 0 and grey = grey_two_by_three]
  have r: "load_image ex_read_file ex_decode_two_by_three ex_interp (''train/cat/c1.jpg'', 0) = Inr (?R, 0)"
    by (rule dvc [THEN conjunct2, THEN conjunct1, THEN mp]) (intro conjI e)
  have rs: "length ?R = 256 \<and> list_all (\<lambda>row. length row = 256) ?R \<and> (0::nat) = 0"
    by (rule dvc [THEN conjunct1, THEN mp]) (rule r)
  have g: "gtsrb_load_image ex_open_signs ex_interp (''train/00000/colour.ppm'', 0) = Inr (?S, 0)"
    by (rule colour [THEN conjunct2, THEN conjunct2, THEN conjunct2, THEN conjunct1, THEN mp])
       (intro conjI f)
  have gs: "length ?S = 80 \<and> list_all (\<lambda>row. length row = 80) ?S \<and> (0::nat) = 0 \<and>
      (\<exists>opened. ex_open_signs ''train/00000/colour.ppm'' = Inr (Array3 opened))"
    by (rule colour [THEN conjunct2, THEN conjunct2, THEN conjunct1, THEN mp]) (rule g)
  have h: "gtsrb_load_image ex_open_signs ex_interp (''train/00000/grey.ppm'', 0) = Inl InvalidArgumentError"
    by (rule grey [THEN conjunct2, THEN conjunct2, THEN conjunct2, THEN conjunct2, THEN mp])
       (rule f)
  have 1: "\<exists>resized.
      load_image ex_read_file ex_decode_two_by_three ex_interp (''train/cat/c1.jpg'', 0) = Inr (resized, 0) \<and>
      length resized = 256 \<and> list_all (\<lambda>row. length row = 256) resized"
    by (rule exI [of _ ?R]) (intro conjI r rs [THEN conjunct1] rs [THEN conjunct2, THEN conjunct1])
  have 2: "\<exists>resized.
      gtsrb_load_image ex_open_signs ex_interp (''train/00000/colour.ppm'', 0) = Inr (resized, 0) \<and>
      length resized = 80 \<and> list_all (\<lambda>row. length row = 80) resized"
    by (rule exI [of _ ?S]) (intro conjI g gs [THEN conjunct1] gs [THEN conjunct2, THEN conjunct1])
  from e(1-4) 1 f(1-3) 2 f(6) h show ?thesis by (intro conjI)
qed

lemma split_slash_not_Nil [simp]: "split_slash s \<noteq> []"
  by (induction s) (auto split: list.splits)

lemma split_slash_append:
  "split_slash (p @ CHR ''/'' # r) = split_slash p @ split_slash r"
proof (induction p)
  case Nil
  show ?case by simp
next
  case (Cons c p)
  obtain w ws where w: "split_slash p = w # ws"
    by (cases "split_slash p") simp_all
  show ?case by (simp add: Cons w)
qed

lemma split_slash_plain: "CHR ''/'' \<notin> set s \<Longrightarrow> split_slash s = [s]"
  by (induction s) auto

lemma path_parts_path_str:
  assumes "valid_name x" and "valid_name y"
  shows "path_parts (path_str root (x, y)) = path_parts root @ [x, y]"
proof -
  have "path_str root (x, y) = root @ CHR ''/'' # (x @ CHR ''/'' # y)"
    by (simp add: path_str_def)
  then have "split_slash (path_str root (x, y)) = split_slash root @ split_slash x @ split_slash y"
    by (simp only: split_slash_append)
  also have "\<dots> = split_slash root @ [x, y]"
    using assms by (simp add: valid_name_def split_slash_plain)
  finally show ?thesis
    using assms by (simp add: path_parts_def valid_name_def)
qed

lemma parent_name_path_str:
  "valid_name x \<Longrightarrow> valid_name y \<Longrightarrow> parent_name (path_str root (x, y)) = x"
  by (simp add: parent_name_def path_parts_path_str butlast_append)

lemma fold_update_notin:
  assumes upd: "\<And>i n d. upd (i, n) d = d(n \<mapsto> i)"
  shows "x \<notin> set names \<Longrightarrow> fold upd (enumerate k names) m x = m x"
  by (induction names arbitrary: k m) (simp_all add: upd)

lemma fold_update_in:
  assumes upd: "\<And>i n d. upd (i, n) d = d(n \<mapsto> i)"
  shows "x \<in> set names \<Longrightarrow>
   \<exists>i. fold upd (enumerate k names) m x = Some i \<and>
       k \<le> i \<and> i < k + length names \<and> names ! (i - k) = x"
proof (induction names arbitrary: k m)
  case Nil
  then show ?case by simp
next
  case (Cons n ns)
  have step: "fold upd (enumerate k (n # ns)) m = fold upd (enumerate (Suc k) ns) (m(n \<mapsto> k))"
    by (simp add: upd)
  show ?case
  proof (cases "x \<in> set ns")
    case True
    from Cons.IH [OF True, of "Suc k" "m(n \<mapsto> k)"]
    obtain i where i: "fold upd (enumerate (Suc k) ns) (m(n \<mapsto> k)) x = Some i"
      and b: "Suc k \<le> i" "i < Suc k + length ns" and v: "ns ! (i - Suc k) = x"
      by blast
    from b have d: "i - k = Suc (i - Suc k)" by simp
    have "(n # ns) ! (i - k) = x" unfolding d using v by simp
    with i b show ?thesis unfolding step by (intro exI [of _ i]) simp
  next
    case False
    with Cons.prems have "x = n" by simp
    with False have "fold upd (enumerate (Suc k) ns) (m(n \<mapsto> k)) x = Some k"
      by (simp add: fold_update_notin [of upd, OF upd])
    with \<open>x = n\<close> show ?thesis unfolding step by (intro exI [of _ k]) simp
  qed
qed

lemma fold_update_distinct:
  assumes upd: "\<And>i n d. upd (i, n) d = d(n \<mapsto> i)"
  shows "distinct names \<Longrightarrow> j < length names \<Longrightarrow>
   fold upd (enumerate k names) m (names ! j) = Some (k + j)"
proof (induction names arbitrary: k m j)
  case Nil
  then show ?case by simp
next
  case (Cons n ns)
  have step: "fold upd (enumerate k (n # ns)) m = fold upd (enumerate (Suc k) ns) (m(n \<mapsto> k))"
    by (simp add: upd)
  show ?case
  proof (cases j)
    case 0
    from Cons.prems have "n \<notin> set ns" by simp
    then have "fold upd (enumerate (Suc k) ns) (m(n \<mapsto> k)) n = Some k"
      by (simp add: fold_update_notin [of upd, OF upd])
    with 0 show ?thesis unfolding step by simp
  next
    case (Suc j')
    with Cons.prems have "distinct ns" and "j' < length ns" by simp_all
    then have ih: "fold upd (enumerate (Suc k) ns) (m(n \<mapsto> k)) (ns ! j') = Some (Suc k + j')"
      by (rule Cons.IH)
    have e: "(n # ns) ! j = ns ! j'" "k + j = Suc k + j'" using Suc by simp_all
    show ?thesis unfolding step e by (rule ih)
  qed
qed

lemma label_to_index_upd:
  "(\<lambda>(index, name) d. d(name \<mapsto> index)) (i, n) d = d(n \<mapsto> i)"
  by simp

lemma label_to_index_None: "label_to_index names x = None \<longleftrightarrow> x \<notin> set names"
proof (cases "x \<in> set names")
  case True
  from fold_update_in [OF label_to_index_upd True, of 0 Map.empty]
  obtain i where "fold (\<lambda>(index, name) d. d(name \<mapsto> index)) (enumerate 0 names) Map.empty x = Some i"
    by blast
  then have "label_to_index names x = Some i" by (simp only: label_to_index_def)
  with True show ?thesis by simp
next
  case False
  have "fold (\<lambda>(index, name) d. d(name \<mapsto> index)) (enumerate 0 names) Map.empty x = Map.empty x"
    using label_to_index_upd False by (rule fold_update_notin)
  then have "label_to_index names x = None" by (simp only: label_to_index_def)
  with False show ?thesis by simp
qed

lemma label_to_index_Some:
  assumes "label_to_index names x = Some i"
  shows "i < length names \<and> names ! i = x"
proof -
  from assms have "x \<in> set names"
    using label_to_index_None [of names x] by auto
  from fold_update_in [OF label_to_index_upd this, of 0 Map.empty]
  obtain i' where f: "fold (\<lambda>(index, name) d. d(name \<mapsto> index)) (enumerate 0 names) Map.empty x = Some i'"
    and b: "i' < 0 + length names" "names ! (i' - 0) = x"
    by blast
  from f have "label_to_index names x = Some i'" by (simp only: label_to_index_def)
  with assms b show ?thesis by simp
qed

lemma label_to_index_nth:
  assumes "distinct names" and "i < length names"
  shows "label_to_index names (names ! i) = Some i"
proof -
  have "fold (\<lambda>(index, name) d. d(name \<mapsto> index)) (enumerate 0 names) Map.empty (names ! i) = Some (0 + i)"
    using label_to_index_upd assms by (rule fold_update_distinct)
  then show ?thesis by (simp only: label_to_index_def add_0)
qed

lemma iterdir_Some_iff:
  "y \<in> fst ` set (iterdir (Some e)) \<longleftrightarrow> (\<exists>cs e'. e = Dir cs \<and> (y, e') \<in> set cs)"
  by (cases e) (force simp: image_iff)+

lemma glob_star_star_iff:
  "(x, y) \<in> set (glob_star_star root) \<longleftrightarrow>
     (\<exists>cs e. (x, Dir cs) \<in> set (iterdir root) \<and> (y, e) \<in> set cs)"
proof -
  have "(x, y) \<in> set (glob_star_star root) \<longleftrightarrow>
      (\<exists>e. (x, e) \<in> set (iterdir root) \<and> y \<in> fst ` set (iterdir (Some e)))"
    by (force simp: glob_star_star_def split_def image_iff)
  also have "\<dots> \<longleftrightarrow> (\<exists>cs e. (x, Dir cs) \<in> set (iterdir root) \<and> (y, e) \<in> set cs)"
    unfolding iterdir_Some_iff by blast
  finally show ?thesis .
qed

lemma set_label_names:
  "set (label_names fs) = {x. \<exists>cs. (x, Dir cs) \<in> set (iterdir (map_of fs ''train''))}"
proof -
  have "is_dir e \<longleftrightarrow> (\<exists>cs. e = Dir cs)" for e by (cases e) simp_all
  then show ?thesis by (force simp: label_names_def)
qed

lemma sorted_label_names: "sorted (label_names fs)"
  by (simp add: label_names_def)

lemma distinct_label_names:
  "distinct (map fst (iterdir (map_of fs ''train''))) \<Longrightarrow> distinct (label_names fs)"
  by (simp add: label_names_def distinct_map_filter)

lemma get_labels_Inr:
  "get_labels d ps = Inr ls \<Longrightarrow>
   length ls = length ps \<and> (\<forall>k<length ps. d (parent_name (ps ! k)) = Some (ls ! k))"
proof (induction ps arbitrary: ls)
  case Nil
  then show ?case by simp
next
  case (Cons p ps)
  from Cons.prems obtain i ls' where i: "d (parent_name p) = Some i"
    and r: "get_labels d ps = Inr ls'" and ls: "ls = i # ls'"
    by (auto simp: bind_r_eq_Inr split: option.splits)
  from Cons.IH [OF r] have "length ls' = length ps"
    and "\<forall>k<length ps. d (parent_name (ps ! k)) = Some (ls' ! k)" by simp_all
  with i ls show ?case by (auto simp: nth_Cons split: nat.splits)
qed

lemma get_labels_total:
  "(\<And>p. p \<in> set ps \<Longrightarrow> d (parent_name p) \<noteq> None) \<Longrightarrow> \<exists>ls. get_labels d ps = Inr ls"
proof (induction ps)
  case Nil
  show ?case by simp
next
  case (Cons p ps)
  from Cons.prems obtain i where "d (parent_name p) = Some i" by force
  moreover from Cons obtain ls where "get_labels d ps = Inr ls" by force
  ultimately show ?case by simp
qed

lemma get_labels_KeyError:
  "p \<in> set ps \<Longrightarrow> d (parent_name p) = None \<Longrightarrow>
   \<exists>n. get_labels d ps = Inl (KeyError n) \<and> d n = None \<and> n \<in> parent_name ` set ps"
proof (induction ps)
  case Nil
  then show ?case by simp
next
  case (Cons q ps)
  show ?case
  proof (cases "d (parent_name q)")
    case None
    then show ?thesis by auto
  next
    case (Some i)
    with Cons.prems have "p \<in> set ps" by auto
    from Cons.IH [OF this Cons.prems(2)] obtain n where "get_labels d ps = Inl (KeyError n)"
      and "d n = None" and "n \<in> parent_name ` set ps" by blast
    with Some show ?thesis by auto
  qed
qed

lemma parent_names_glob_paths:
  assumes "valid_split fs dataset"
  shows "map parent_name (glob_paths datapath fs dataset)
           = map fst (glob_star_star (map_of fs (split_name dataset)))"
proof -
  have "parent_name (path_str root p) = fst p"
    if "p \<in> set (glob_star_star (map_of fs (split_name dataset)))" for p root
  proof -
    from assms that have "valid_name (fst p)" and "valid_name (snd p)"
      by (auto simp: valid_split_def list_all_iff)
    then show ?thesis using parent_name_path_str [of "fst p" "snd p" root] by simp
  qed
  then show ?thesis by (simp add: glob_paths_def)
qed

lemma train_parents_are_labels:
  assumes "p \<in> set (glob_star_star (map_of fs (split_name Train)))"
  shows "fst p \<in> set (label_names fs)"
proof -
  from assms have "(fst p, snd p) \<in> set (glob_star_star (map_of fs ''train''))" by simp
  then obtain cs where "(fst p, Dir cs) \<in> set (iterdir (map_of fs ''train''))"
    unfolding glob_star_star_iff by blast
  then show ?thesis unfolding set_label_names by blast
qed

text \<open>
  C10. For the training split the lookup of \<^verbatim>\<open>get_labels\<close> cannot fail: when the names in
  the training directory are names a directory can list and \<^verbatim>\<open>get_paths('train')\<close> returns
  its paths, \<^verbatim>\<open>get_labels('train')\<close> returns one label for each path, and each label is
  the index of a name of the label space.
\<close>

theorem train_labels_never_fail:
  "valid_split fs Train \<and> get_paths datapath nimages fs Train = Inr paths \<longrightarrow>
     (\<exists>labels. get_labels (label_to_index (label_names fs)) paths = Inr labels \<and>
        length labels = length paths \<and>
        list_all (\<lambda>l. l < length (label_names fs)) labels)"
proof
  assume h: "valid_split fs Train \<and> get_paths datapath nimages fs Train = Inr paths"
  then have v: "valid_split fs Train" and g: "get_paths datapath nimages fs Train = Inr paths"
    by simp_all
  from g have paths: "paths = glob_paths datapath fs Train"
    by (auto simp: get_paths_def Let_def split: if_splits)
  have pn: "map parent_name paths = map fst (glob_star_star (map_of fs (split_name Train)))"
    unfolding paths using v by (rule parent_names_glob_paths)
  have known: "label_to_index (label_names fs) (parent_name p) \<noteq> None" if "p \<in> set paths" for p
  proof -
    from that have "parent_name p \<in> set (map parent_name paths)" by simp
    then obtain q where "q \<in> set (glob_star_star (map_of fs (split_name Train)))"
      and "parent_name p = fst q"
      unfolding pn by auto
    then have "parent_name p \<in> set (label_names fs)"
      using train_parents_are_labels [of q fs] by simp
    then show ?thesis by (simp add: label_to_index_None)
  qed
  then obtain labels where l: "get_labels (label_to_index (label_names fs)) paths = Inr labels"
    using get_labels_total [of paths "label_to_index (label_names fs)"] by blast
  from get_labels_Inr [OF l] have len: "length labels = length paths"
    and at: "\<forall>k<length paths. label_to_index (label_names fs) (parent_name (paths ! k)) = Some (labels ! k)"
    by simp_all
  have "list_all (\<lambda>l. l < length (label_names fs)) labels"
    unfolding list_all_length
  proof (intro allI impI)
    fix k assume "k < length labels"
    with len at have "label_to_index (label_names fs) (parent_name (paths ! k)) = Some (labels ! k)"
      by simp
    then show "labels ! k < length (label_names fs)"
      using label_to_index_Some by blast
  qed
  with l len show "\<exists>labels. get_labels (label_to_index (label_names fs)) paths = Inr labels \<and>
        length labels = length paths \<and>
        list_all (\<lambda>l. l < length (label_names fs)) labels"
    by blast
qed

lemma small_train_paths:
  "get_paths ''/data/'' small_nimages small_fs Train =
     Inr [''/data/train/dog/d1.jpg'', ''/data/train/dog/d2.jpg'', ''/data/train/cat/c1.jpg'']"
  by (simp add: get_paths_def glob_paths_def glob_star_star_def small_fs_def path_str_def)

lemma small_valid: "valid_split small_fs Train" "valid_split small_fs Validation" "valid_split small_fs Test"
  by (simp_all add: valid_split_def valid_name_def glob_star_star_def small_fs_def)

lemma small_label_names: "label_names small_fs = [''cat'', ''dog'']"
  by (simp add: label_names_def small_fs_def)

theorem train_labels_never_fail_witness:
  "valid_split small_fs Train \<and>
   get_paths ''/data/'' small_nimages small_fs Train =
     Inr [''/data/train/dog/d1.jpg'', ''/data/train/dog/d2.jpg'', ''/data/train/cat/c1.jpg''] \<and>
   (\<exists>labels. get_labels (label_to_index (label_names small_fs))
        [''/data/train/dog/d1.jpg'', ''/data/train/dog/d2.jpg'', ''/data/train/cat/c1.jpg''] = Inr labels \<and>
      length labels = 3 \<and> list_all (\<lambda>l. l < 2) labels)"
proof -
  let ?ps = "[''/data/train/dog/d1.jpg'', ''/data/train/dog/d2.jpg'', ''/data/train/cat/c1.jpg'']"
  have h: "valid_split small_fs Train \<and> get_paths ''/data/'' small_nimages small_fs Train = Inr ?ps"
    by (simp add: small_train_paths small_valid)
  with train_labels_never_fail [of small_fs "''/data/''" small_nimages ?ps]
  obtain labels where l: "get_labels (label_to_index (label_names small_fs)) ?ps = Inr labels"
    and n: "length labels = length ?ps"
    and b: "list_all (\<lambda>l. l < length (label_names small_fs)) labels"
    by blast
  have two: "length (label_names small_fs) = 2" by (simp add: small_label_names)
  from n have "length labels = 3" by simp
  moreover from b have "list_all (\<lambda>l. l < 2) labels" unfolding two .
  ultimately show ?thesis using h l by blast
qed

lemma get_paths_Inl:
  "length (glob_paths datapath fs dataset) \<noteq> nimages dataset \<Longrightarrow>
   get_paths datapath nimages fs dataset =
     Inl (AssertionError (length (glob_paths datapath fs dataset)) (nimages dataset))"
  by (simp add: get_paths_def Let_def)

lemma get_paths_Inr:
  "length (glob_paths datapath fs dataset) = nimages dataset \<Longrightarrow>
   get_paths datapath nimages fs dataset = Inr (glob_paths datapath fs dataset)"
  by (simp add: get_paths_def Let_def)

lemma glob_paths_iff:
  "p \<in> set (glob_paths datapath fs dataset) \<longleftrightarrow>
     (\<exists>x cs y e. (x, Dir cs) \<in> set (iterdir (map_of fs (split_name dataset))) \<and> (y, e) \<in> set cs \<and>
        p = datapath @ split_name dataset @ ''/'' @ x @ ''/'' @ y)"
proof -
  have "p \<in> set (glob_paths datapath fs dataset) \<longleftrightarrow>
      (\<exists>x y. (x, y) \<in> set (glob_star_star (map_of fs (split_name dataset))) \<and>
         p = path_str (datapath @ split_name dataset) (x, y))"
    by (auto simp: glob_paths_def)
  also have "\<dots> \<longleftrightarrow> (\<exists>x cs y e. (x, Dir cs) \<in> set (iterdir (map_of fs (split_name dataset))) \<and>
      (y, e) \<in> set cs \<and> p = datapath @ split_name dataset @ ''/'' @ x @ ''/'' @ y)"
    unfolding glob_star_star_iff path_str_def by auto
  finally show ?thesis .
qed

lemma glob_paths_length:
  "length (glob_paths datapath fs dataset) =
     sum_list (map (\<lambda>(x, e). length (iterdir (Some e))) (iterdir (map_of fs (split_name dataset))))"
  by (simp add: glob_paths_def glob_star_star_def length_concat comp_def split_def)

lemma index_datasets_test_mismatch:
  assumes "length (glob_paths datapath fs Test) \<noteq> nimages Test"
  shows "\<exists>e. index_datasets datapath nimages fs = Inl e"
proof -
  have t: "get_paths datapath nimages fs Test
      = Inl (AssertionError (length (glob_paths datapath fs Test)) (nimages Test))"
    using assms by (rule get_paths_Inl)
  show ?thesis
    by (cases "get_paths datapath nimages fs Train"; cases "get_paths datapath nimages fs Validation")
       (simp_all add: index_datasets_def t)
qed

lemma index_datasets_test_mismatch_only:
  assumes "length (glob_paths datapath fs Train) = nimages Train"
    and "length (glob_paths datapath fs Validation) = nimages Validation"
    and "length (glob_paths datapath fs Test) \<noteq> nimages Test"
  shows "index_datasets datapath nimages fs
      = Inl (AssertionError (length (glob_paths datapath fs Test)) (nimages Test))"
  using assms by (simp add: index_datasets_def get_paths_Inl get_paths_Inr)

lemma dvc_run_index_error:
  "index_datasets dvc_datapath dvc_nimages fs = Inl e \<Longrightarrow>
   dvc_run fs read_file decode_jpeg interp rnd = Inl e"
  by (simp add: dvc_run_def)

text \<open>
  C2. \<^verbatim>\<open>get_paths\<close> fails if and only if the number of paths that \<^verbatim>\<open>root/split/*/*\<close> matches
  differs from the expected count of the split, and then with the assertion error that
  carries both numbers; when it succeeds it returns all the matched paths. The matched
  paths are exactly the entries \<open>y\<close> of the directories \<open>x\<close> of the directory of the split,
  two levels deep, one path for each such entry. With 21999 files matched in the test
  split of the dogs-vs-cats data, where 22000 are expected, \<^verbatim>\<open>get_paths('test')\<close> fails,
  and a run of the notebook ends with an error before any dataset is iterated; when the
  training and the validation split have their expected counts, the error of the run is
  that of the test split.
\<close>

theorem get_paths_fails_iff_count_differs:
  "((\<exists>e. get_paths datapath nimages fs dataset = Inl e) \<longleftrightarrow>
       length (glob_paths datapath fs dataset) \<noteq> nimages dataset) \<and>
   (length (glob_paths datapath fs dataset) \<noteq> nimages dataset \<longrightarrow>
      get_paths datapath nimages fs dataset =
        Inl (AssertionError (length (glob_paths datapath fs dataset)) (nimages dataset))) \<and>
   (\<forall>paths. get_paths datapath nimages fs dataset = Inr paths \<longrightarrow>
      paths = glob_paths datapath fs dataset \<and> length paths = nimages dataset) \<and>
   (\<forall>p. p \<in> set (glob_paths datapath fs dataset) \<longleftrightarrow>
      (\<exists>x cs y e. (x, Dir cs) \<in> set (iterdir (map_of fs (split_name dataset))) \<and> (y, e) \<in> set cs \<and>
         p = datapath @ split_name dataset @ ''/'' @ x @ ''/'' @ y)) \<and>
   length (glob_paths datapath fs dataset) =
     sum_list (map (\<lambda>(x, e). length (iterdir (Some e))) (iterdir (map_of fs (split_name dataset)))) \<and>
   (length (glob_paths dvc_datapath fs Test) = 21999 \<longrightarrow>
      get_paths dvc_datapath dvc_nimages fs Test = Inl (AssertionError 21999 22000) \<and>
      (\<exists>e. dvc_run fs read_file decode_jpeg interp rnd = Inl e) \<and>
      (length (glob_paths dvc_datapath fs Train) = 2000 \<and>
       length (glob_paths dvc_datapath fs Validation) = 1000 \<longrightarrow>
         dvc_run fs read_file decode_jpeg interp rnd = Inl (AssertionError 21999 22000)))"
proof -
  have a: "(\<exists>e. get_paths datapath nimages fs dataset = Inl e) \<longleftrightarrow>
       length (glob_paths datapath fs dataset) \<noteq> nimages dataset"
    by (auto simp: get_paths_def Let_def)
  have b: "length (glob_paths datapath fs dataset) \<noteq> nimages dataset \<longrightarrow>
      get_paths datapath nimages fs dataset =
        Inl (AssertionError (length (glob_paths datapath fs dataset)) (nimages dataset))"
    by (simp add: get_paths_Inl)
  have c: "\<forall>paths. get_paths datapath nimages fs dataset = Inr paths \<longrightarrow>
      paths = glob_paths datapath fs dataset \<and> length paths = nimages dataset"
    by (auto simp: get_paths_def Let_def split: if_splits)
  have d: "\<forall>p. p \<in> set (glob_paths datapath fs dataset) \<longleftrightarrow>
      (\<exists>x cs y e. (x, Dir cs) \<in> set (iterdir (map_of fs (split_name dataset))) \<and> (y, e) \<in> set cs \<and>
         p = datapath @ split_name dataset @ ''/'' @ x @ ''/'' @ y)"
    using glob_paths_iff by blast
  note e = glob_paths_length [of datapath fs dataset]
  have f: "length (glob_paths dvc_datapath fs Test) = 21999 \<longrightarrow>
      get_paths dvc_datapath dvc_nimages fs Test = Inl (AssertionError 21999 22000) \<and>
      (\<exists>e. dvc_run fs read_file decode_jpeg interp rnd = Inl e) \<and>
      (length (glob_paths dvc_datapath fs Train) = 2000 \<and>
       length (glob_paths dvc_datapath fs Validation) = 1000 \<longrightarrow>
         dvc_run fs read_file decode_jpeg interp rnd = Inl (AssertionError 21999 22000))"
  proof
    assume n: "length (glob_paths dvc_datapath fs Test) = 21999"
    then have ne: "length (glob_paths dvc_datapath fs Test) \<noteq> dvc_nimages Test" by simp
    have 1: "get_paths dvc_datapath dvc_nimages fs Test = Inl (AssertionError 21999 22000)"
      using get_paths_Inl [of dvc_datapath fs Test dvc_nimages, OF ne] n by simp
    from index_datasets_test_mismatch [of dvc_datapath fs dvc_nimages, OF ne]
    have 2: "\<exists>e. dvc_run fs read_file decode_jpeg interp rnd = Inl e"
      using dvc_run_index_error by blast
    have 3: "length (glob_paths dvc_datapath fs Train) = 2000 \<and>
       length (glob_paths dvc_datapath fs Validation) = 1000 \<longrightarrow>
         dvc_run fs read_file decode_jpeg interp rnd = Inl (AssertionError 21999 22000)"
    proof
      assume "length (glob_paths dvc_datapath fs Train) = 2000 \<and>
        length (glob_paths dvc_datapath fs Validation) = 1000"
      then have "index_datasets dvc_datapath dvc_nimages fs
          = Inl (AssertionError (length (glob_paths dvc_datapath fs Test)) (dvc_nimages Test))"
        using ne index_datasets_test_mismatch_only [of dvc_datapath fs dvc_nimages] by simp
      then show "dvc_run fs read_file decode_jpeg interp rnd = Inl (AssertionError 21999 22000)"
        using n by (simp add: dvc_run_index_error)
    qed
    from 1 2 3 show "get_paths dvc_datapath dvc_nimages fs Test = Inl (AssertionError 21999 22000) \<and>
      (\<exists>e. dvc_run fs read_file decode_jpeg interp rnd = Inl e) \<and>
      (length (glob_paths dvc_datapath fs Train) = 2000 \<and>
       length (glob_paths dvc_datapath fs Validation) = 1000 \<longrightarrow>
         dvc_run fs read_file decode_jpeg interp rnd = Inl (AssertionError 21999 22000))"
      by (intro conjI)
  qed
  from a b c d e f show ?thesis by (intro conjI)
qed

lemma ex_fs_short_counts:
  "length (glob_paths dvc_datapath ex_fs_short Train) = 2000"
  "length (glob_paths dvc_datapath ex_fs_short Validation) = 1000"
  "length (glob_paths dvc_datapath ex_fs_short Test) = 21999"
  by (simp_all add: glob_paths_def glob_star_star_def ex_fs_short_def ex_files_def)

theorem get_paths_fails_iff_count_differs_witness:
  "length (glob_paths dvc_datapath ex_fs_short Train) = 2000 \<and>
   length (glob_paths dvc_datapath ex_fs_short Validation) = 1000 \<and>
   length (glob_paths dvc_datapath ex_fs_short Test) = 21999 \<and>
   get_paths dvc_datapath dvc_nimages ex_fs_short Test = Inl (AssertionError 21999 22000) \<and>
   dvc_run ex_fs_short ex_read_file ex_decode_jpeg ex_interp draw_zero = Inl (AssertionError 21999 22000) \<and>
   get_paths dvc_datapath dvc_nimages ex_fs_short Train = Inr (glob_paths dvc_datapath ex_fs_short Train)"
proof -
  note t = get_paths_fails_iff_count_differs
    [of dvc_datapath dvc_nimages ex_fs_short Train ex_read_file ex_decode_jpeg ex_interp draw_zero]
  from t have "\<not> (\<exists>e. get_paths dvc_datapath dvc_nimages ex_fs_short Train = Inl e)"
    by (simp only: ex_fs_short_counts dvc_nimages.simps simp_thms)
  then have "get_paths dvc_datapath dvc_nimages ex_fs_short Train = Inr (glob_paths dvc_datapath ex_fs_short Train)"
    by (simp add: get_paths_def Let_def split: if_splits)
  moreover from t have "get_paths dvc_datapath dvc_nimages ex_fs_short Test = Inl (AssertionError 21999 22000)"
    and "dvc_run ex_fs_short ex_read_file ex_decode_jpeg ex_interp draw_zero = Inl (AssertionError 21999 22000)"
    by (simp_all only: ex_fs_short_counts simp_thms)
  ultimately show ?thesis by (simp only: ex_fs_short_counts simp_thms)
qed

text \<open>
  C3. The label space is the sorted list of the names of the directories of the training
  split, without repetition, and \<^verbatim>\<open>label_to_index\<close> maps the i-th name to i. For every
  split, when \<^verbatim>\<open>get_labels\<close> returns, the k-th label is the position, in that list, of the
  name of the parent directory of the k-th enumerated path; it returns whenever every
  parent directory is in the label space, and fails with the key error of a name outside
  the label space otherwise. The names in the directories are taken to be names a
  directory can list, each once.
\<close>

theorem label_is_position_of_parent_directory:
  "distinct (map fst (iterdir (map_of fs ''train''))) \<and> valid_split fs dataset \<longrightarrow>
     sorted (label_names fs) \<and> distinct (label_names fs) \<and>
     set (label_names fs) = {x. \<exists>cs. (x, Dir cs) \<in> set (iterdir (map_of fs ''train''))} \<and>
     (\<forall>i<length (label_names fs). label_to_index (label_names fs) (label_names fs ! i) = Some i) \<and>
     (\<forall>labels. get_labels (label_to_index (label_names fs)) (glob_paths datapath fs dataset) = Inr labels \<longrightarrow>
        length labels = length (glob_paths datapath fs dataset) \<and>
        (\<forall>k<length labels.
           labels ! k < length (label_names fs) \<and>
           label_names fs ! (labels ! k) = parent_name (glob_paths datapath fs dataset ! k) \<and>
           parent_name (glob_paths datapath fs dataset ! k)
             = fst (glob_star_star (map_of fs (split_name dataset)) ! k))) \<and>
     (list_all (\<lambda>p. fst p \<in> set (label_names fs)) (glob_star_star (map_of fs (split_name dataset))) \<longrightarrow>
        (\<exists>labels. get_labels (label_to_index (label_names fs)) (glob_paths datapath fs dataset) = Inr labels)) \<and>
     (\<not> list_all (\<lambda>p. fst p \<in> set (label_names fs)) (glob_star_star (map_of fs (split_name dataset))) \<longrightarrow>
        (\<exists>n. get_labels (label_to_index (label_names fs)) (glob_paths datapath fs dataset) = Inl (KeyError n) \<and>
           n \<notin> set (label_names fs) \<and>
           n \<in> fst ` set (glob_star_star (map_of fs (split_name dataset)))))"
proof
  assume h: "distinct (map fst (iterdir (map_of fs ''train''))) \<and> valid_split fs dataset"
  then have dis: "distinct (label_names fs)" and v: "valid_split fs dataset"
    by (simp_all add: distinct_label_names)
  let ?names = "label_names fs"
  let ?d = "label_to_index ?names"
  let ?paths = "glob_paths datapath fs dataset"
  let ?pairs = "glob_star_star (map_of fs (split_name dataset))"
  have pn: "map parent_name ?paths = map fst ?pairs"
    using v by (rule parent_names_glob_paths)
  have len: "length ?paths = length ?pairs" by (simp add: glob_paths_def)
  have pk: "parent_name (?paths ! k) = fst (?pairs ! k)" if "k < length ?paths" for k
  proof -
    from that have "map parent_name ?paths ! k = parent_name (?paths ! k)" by simp
    moreover from that len have "map fst ?pairs ! k = fst (?pairs ! k)" by simp
    ultimately show ?thesis using pn by simp
  qed
  have a: "\<forall>i<length ?names. ?d (?names ! i) = Some i"
    using dis by (simp add: label_to_index_nth)
  have b: "\<forall>labels. get_labels ?d ?paths = Inr labels \<longrightarrow>
        length labels = length ?paths \<and>
        (\<forall>k<length labels.
           labels ! k < length ?names \<and>
           ?names ! (labels ! k) = parent_name (?paths ! k) \<and>
           parent_name (?paths ! k) = fst (?pairs ! k))"
  proof (intro allI impI)
    fix labels assume l: "get_labels ?d ?paths = Inr labels"
    from get_labels_Inr [OF l] have n: "length labels = length ?paths"
      and at: "\<forall>k<length ?paths. ?d (parent_name (?paths ! k)) = Some (labels ! k)"
      by simp_all
    have "labels ! k < length ?names \<and> ?names ! (labels ! k) = parent_name (?paths ! k) \<and>
        parent_name (?paths ! k) = fst (?pairs ! k)" if "k < length labels" for k
    proof -
      from that n have k: "k < length ?paths" by simp
      with at have "?d (parent_name (?paths ! k)) = Some (labels ! k)" by simp
      from label_to_index_Some [OF this] pk [OF k] show ?thesis by simp
    qed
    with n show "length labels = length ?paths \<and>
        (\<forall>k<length labels.
           labels ! k < length ?names \<and>
           ?names ! (labels ! k) = parent_name (?paths ! k) \<and>
           parent_name (?paths ! k) = fst (?pairs ! k))"
      by blast
  qed
  have c: "list_all (\<lambda>p. fst p \<in> set ?names) ?pairs \<longrightarrow> (\<exists>labels. get_labels ?d ?paths = Inr labels)"
  proof
    assume all: "list_all (\<lambda>p. fst p \<in> set ?names) ?pairs"
    have "?d (parent_name p) \<noteq> None" if "p \<in> set ?paths" for p
    proof -
      from that have "parent_name p \<in> set (map parent_name ?paths)" by simp
      then have "parent_name p \<in> fst ` set ?pairs" unfolding pn by simp
      with all have "parent_name p \<in> set ?names" by (auto simp: list_all_iff)
      then show ?thesis by (simp add: label_to_index_None)
    qed
    then show "\<exists>labels. get_labels ?d ?paths = Inr labels" by (rule get_labels_total)
  qed
  have d: "\<not> list_all (\<lambda>p. fst p \<in> set ?names) ?pairs \<longrightarrow>
        (\<exists>n. get_labels ?d ?paths = Inl (KeyError n) \<and> n \<notin> set ?names \<and> n \<in> fst ` set ?pairs)"
  proof
    assume "\<not> list_all (\<lambda>p. fst p \<in> set ?names) ?pairs"
    then obtain q where "q \<in> set ?pairs" and "fst q \<notin> set ?names"
      by (auto simp: list_all_iff)
    then have "fst q \<in> set (map parent_name ?paths)" unfolding pn by simp
    then obtain p where p: "p \<in> set ?paths" and "parent_name p = fst q" by auto
    with \<open>fst q \<notin> set ?names\<close> have "?d (parent_name p) = None"
      by (simp add: label_to_index_None)
    from get_labels_KeyError [of p ?paths ?d, OF p this] obtain n where "get_labels ?d ?paths = Inl (KeyError n)"
      and "?d n = None" and "n \<in> parent_name ` set ?paths" by blast
    moreover have "parent_name ` set ?paths = fst ` set ?pairs"
      using pn by (metis set_map)
    ultimately show "\<exists>n. get_labels ?d ?paths = Inl (KeyError n) \<and> n \<notin> set ?names \<and> n \<in> fst ` set ?pairs"
      by (auto simp: label_to_index_None)
  qed
  from sorted_label_names [of fs] dis set_label_names [of fs] a b c d
  show "sorted ?names \<and> distinct ?names \<and>
     set ?names = {x. \<exists>cs. (x, Dir cs) \<in> set (iterdir (map_of fs ''train''))} \<and>
     (\<forall>i<length ?names. ?d (?names ! i) = Some i) \<and>
     (\<forall>labels. get_labels ?d ?paths = Inr labels \<longrightarrow>
        length labels = length ?paths \<and>
        (\<forall>k<length labels.
           labels ! k < length ?names \<and>
           ?names ! (labels ! k) = parent_name (?paths ! k) \<and>
           parent_name (?paths ! k) = fst (?pairs ! k))) \<and>
     (list_all (\<lambda>p. fst p \<in> set ?names) ?pairs \<longrightarrow> (\<exists>labels. get_labels ?d ?paths = Inr labels)) \<and>
     (\<not> list_all (\<lambda>p. fst p \<in> set ?names) ?pairs \<longrightarrow>
        (\<exists>n. get_labels ?d ?paths = Inl (KeyError n) \<and> n \<notin> set ?names \<and> n \<in> fst ` set ?pairs))"
    by (intro conjI)
qed

lemma small_glob:
  "glob_star_star (map_of small_fs ''test'') = [(''dog'', ''d3.jpg''), (''dog'', ''d4.jpg'')]"
  "glob_star_star (map_of small_fs ''validation'') = [(''cat'', ''c2.jpg''), (''bird'', ''b1.jpg'')]"
  by (simp_all add: glob_star_star_def small_fs_def)

theorem label_is_position_of_parent_directory_witness:
  "distinct (map fst (iterdir (map_of small_fs ''train''))) \<and>
   valid_split small_fs Test \<and> valid_split small_fs Validation \<and>
   label_names small_fs = [''cat'', ''dog''] \<and>
   label_to_index (label_names small_fs) ''dog'' = Some 1 \<and>
   glob_paths ''/data/'' small_fs Test = [''/data/test/dog/d3.jpg'', ''/data/test/dog/d4.jpg''] \<and>
   get_labels (label_to_index (label_names small_fs)) (glob_paths ''/data/'' small_fs Test) = Inr [1, 1] \<and>
   get_labels (label_to_index (label_names small_fs)) (glob_paths ''/data/'' small_fs Validation)
     = Inl (KeyError ''bird'')"
proof -
  have dis: "distinct (map fst (iterdir (map_of small_fs ''train'')))"
    by (simp add: small_fs_def)
  have paths: "glob_paths ''/data/'' small_fs Test = [''/data/test/dog/d3.jpg'', ''/data/test/dog/d4.jpg'']"
    by (simp add: glob_paths_def small_glob path_str_def)
  note test = label_is_position_of_parent_directory [of small_fs Test "''/data/''"]
  note val = label_is_position_of_parent_directory [of small_fs Validation "''/data/''"]
  have dog: "label_to_index (label_names small_fs) ''dog'' = Some 1"
  proof -
    from test dis small_valid
    have "\<forall>i<length (label_names small_fs).
        label_to_index (label_names small_fs) (label_names small_fs ! i) = Some i"
      by blast
    moreover have "1 < length (label_names small_fs)" by (simp add: small_label_names)
    ultimately have "label_to_index (label_names small_fs) (label_names small_fs ! 1) = Some 1"
      by blast
    moreover have "label_names small_fs ! 1 = ''dog''" by (simp add: small_label_names)
    ultimately show ?thesis by simp
  qed
  have labels: "get_labels (label_to_index (label_names small_fs)) (glob_paths ''/data/'' small_fs Test) = Inr [1, 1]"
  proof -
    have "parent_name ''/data/test/dog/d3.jpg'' = ''dog''" "parent_name ''/data/test/dog/d4.jpg'' = ''dog''"
      by (simp_all add: parent_name_def path_parts_def)
    then show ?thesis by (simp add: paths dog)
  qed
  have bird: "get_labels (label_to_index (label_names small_fs)) (glob_paths ''/data/'' small_fs Validation)
      = Inl (KeyError ''bird'')"
  proof -
    have "\<not> list_all (\<lambda>p. fst p \<in> set (label_names small_fs))
        (glob_star_star (map_of small_fs (split_name Validation)))"
      by (simp add: small_glob small_label_names)
    with val dis small_valid obtain n
      where n: "get_labels (label_to_index (label_names small_fs)) (glob_paths ''/data/'' small_fs Validation)
          = Inl (KeyError n)"
        and "n \<notin> set (label_names small_fs)"
        and "n \<in> fst ` set (glob_star_star (map_of small_fs (split_name Validation)))"
      by blast
    then have "n = ''bird''" by (auto simp: small_glob small_label_names)
    with n show ?thesis by simp
  qed
  from dis small_valid small_label_names dog paths labels bird show ?thesis by (intro conjI)
qed

end
